theory Spec2Isabelle
  imports Main "HOL-Library.Sublist"
begin

section \<open>JavaScript values, errors and the platform\<close>

text \<open>
  The validator script \<^verbatim>\<open>validator01.js\<close> works on values produced by \<^verbatim>\<open>JSON.parse\<close> and
  \<^verbatim>\<open>response.json()\<close>. Such a value is any JSON value, not only an object. An object is an
  association list in the order of its own properties; numbers are opaque to the script, so
  their type is a parameter. A JavaScript string is modelled as a \<^typ>\<open>string\<close>; characters
  beyond code 255 are outside this model.
\<close>

datatype 'n json =
    JNull
  | JBool bool
  | JNumber 'n
  | JString string
  | JArray "'n json list"
  | JObject "(string \<times> 'n json) list"

text \<open>
  Errors as values. \<open>Error m\<close> is \<^verbatim>\<open>new Error(m)\<close>, thrown by the script itself;
  \<open>TypeError\<close> is what the language raises when a property of \<^verbatim>\<open>null\<close> is touched;
  \<open>PlatformError name\<close> is any error raised by a platform function (file system,
  \<^verbatim>\<open>JSON.parse\<close>, \<^verbatim>\<open>fetch\<close>, the schema compiler), identified by its name.
\<close>

datatype jserror = Error string | TypeError | PlatformError string

text \<open>
  What \<^verbatim>\<open>fetch(url, {signal: AbortSignal.timeout(ms)})\<close> settles to: a rejection, or a
  response with its \<^verbatim>\<open>ok\<close> flag and the result of \<^verbatim>\<open>response.json()\<close>.
\<close>

datatype 'n response = Rejected jserror | Response bool "jserror + 'n json"

text \<open>
  The result of applying a compiled validator: the boolean it returns and the
  \<^verbatim>\<open>errors\<close> property it leaves behind.
\<close>

record 'e outcome =
  valid :: bool
  errors :: "'e list"

text \<open>
  The platform functions the script calls. \<open>fetch n\<close> is the \<open>n\<close>-th call of \<^verbatim>\<open>fetch\<close> in
  a run (the network may answer the same locator differently each time); its arguments are
  the locator and the abort timeout in milliseconds. A compiled validator may itself raise.
\<close>

record ('n, 'e) platform =
  readFileSync :: "string \<Rightarrow> jserror + string"
  JSON_parse :: "string \<Rightarrow> jserror + 'n json"
  JSON_stringify :: "'n json \<Rightarrow> string"
  fetch :: "nat \<Rightarrow> string \<Rightarrow> nat \<Rightarrow> 'n response"
  ajv_compile :: "'n json \<Rightarrow> jserror + ('n json \<Rightarrow> jserror + 'e outcome)"

text \<open>What a run does that is visible from outside, in order, and the error it ends with.\<close>

datatype ('n, 'e) event =
    Fetch string
  | Compile "'n json"
  | Validate "'n json"
  | ConsoleLog string
  | ConsoleError string "'e list"

record ('n, 'e) run =
  events :: "('n, 'e) event list"
  raised :: "jserror option"

section \<open>Constants\<close>

definition RESOURCES_PATH :: string where
  "RESOURCES_PATH = ''../resources/''"

definition PARENT_SCHEME_URL :: string where
  "PARENT_SCHEME_URL = ''https://raw.githubusercontent.com/oracle/netsuite-suitecloud-sdk/refs/heads/feature/PDPDEVTOOL-6007-schemas_for_suitecloud_tools/packages/schemas/parent-netsuite-1.0.0.json''"

definition SCHEMA_KEY :: string where
  "SCHEMA_KEY = ''$schema''"

section \<open>Reading the input\<close>

text \<open>
  \<^verbatim>\<open>readInputParameters\<close>: \<^verbatim>\<open>process.argv.slice(2)\<close> drops the interpreter and the
  script path.
\<close>

definition readInputParameters :: "string list \<Rightarrow> jserror + string" where
  "readInputParameters process_argv =
     (let input = drop 2 process_argv in
      if length input \<noteq> 1 then Inl (Error ''Missing input json file'')
      else Inr (input ! 0))"

text \<open>\<^verbatim>\<open>readHttpsJsonUrl\<close>: one call of \<^verbatim>\<open>fetch\<close> with a 5000 ms abort signal.\<close>

definition readHttpsJsonUrl :: "(string \<Rightarrow> nat \<Rightarrow> 'n response) \<Rightarrow> string \<Rightarrow> jserror + 'n json" where
  "readHttpsJsonUrl fetch_call url =
     (case fetch_call url 5000 of
        Rejected e \<Rightarrow> Inl e
      | Response ok body \<Rightarrow>
          if \<not> ok then Inl (Error ''Network response was not ok'') else body)"

definition readJsonFile :: "('n, 'e) platform \<Rightarrow> string \<Rightarrow> jserror + 'n json" where
  "readJsonFile p fileName =
     (case readFileSync p (RESOURCES_PATH @ fileName) of
        Inl e \<Rightarrow> Inl e
      | Inr content \<Rightarrow> JSON_parse p content)"

section \<open>Own properties of a value\<close>

fun string_of_nat :: "nat \<Rightarrow> string" where
  "string_of_nat n =
     (if n < 10 then [char_of (48 + n)]
      else string_of_nat (n div 10) @ [char_of (48 + n mod 10)])"

declare string_of_nat.simps [simp del]

text \<open>
  \<^verbatim>\<open>Object.getOwnPropertyNames\<close>: the keys of an object; the indices and \<^verbatim>\<open>length\<close> of an
  array or of a string; nothing for a number or a boolean; a \<^verbatim>\<open>TypeError\<close> for \<^verbatim>\<open>null\<close>.
\<close>

fun getOwnPropertyNames :: "'n json \<Rightarrow> jserror + string list" where
  "getOwnPropertyNames JNull = Inl TypeError"
| "getOwnPropertyNames (JBool b) = Inr []"
| "getOwnPropertyNames (JNumber n) = Inr []"
| "getOwnPropertyNames (JString s) = Inr (map string_of_nat [0..<length s] @ [''length''])"
| "getOwnPropertyNames (JArray xs) = Inr (map string_of_nat [0..<length xs] @ [''length''])"
| "getOwnPropertyNames (JObject kvs) = Inr (map fst kvs)"

text \<open>
  \<^verbatim>\<open>delete x.$schema\<close>: removes the property from an object, changes nothing in any other
  value that has properties, and raises a \<^verbatim>\<open>TypeError\<close> on \<^verbatim>\<open>null\<close>.
\<close>

fun delete_schema :: "'n json \<Rightarrow> jserror + 'n json" where
  "delete_schema JNull = Inl TypeError"
| "delete_schema (JObject kvs) = Inr (JObject (filter (\<lambda>kv. fst kv \<noteq> SCHEMA_KEY) kvs))"
| "delete_schema (JBool b) = Inr (JBool b)"
| "delete_schema (JNumber n) = Inr (JNumber n)"
| "delete_schema (JString s) = Inr (JString s)"
| "delete_schema (JArray xs) = Inr (JArray xs)"

section \<open>The type of the input document\<close>

text \<open>
  \<^verbatim>\<open>getJsonFileType\<close>. The test \<^verbatim>\<open>typeof jsonTypeList[0] === "string"\<close> is always true of a
  property name, and \<^verbatim>\<open>availableTypes.keys()\<close> has no effect.
\<close>

definition getJsonFileType :: "'n json \<Rightarrow> (string \<rightharpoonup> string) \<Rightarrow> jserror + string" where
  "getJsonFileType jsonFile availableTypes =
     (case getOwnPropertyNames jsonFile of
        Inl e \<Rightarrow> Inl e
      | Inr names \<Rightarrow>
          (let jsonTypeList = filter (\<lambda>prop. prop \<noteq> SCHEMA_KEY) names in
           if length jsonTypeList = 1 then Inr (jsonTypeList ! 0)
           else Inl (Error ''Wrong json file, no main entity: '')))"

section \<open>The reference pattern\<close>

text \<open>
  The regular expression of \<^verbatim>\<open>findAllRefs\<close> is
  \<^verbatim>\<open>/\"\$ref\"\s*:\s*\"(https?:\/\/[\w\/\d_\.\-]+)#\/properties\/([\w\d_\.\-]+)\"/g\<close>.
  Its character classes, on the characters of this model:
\<close>

definition is_word :: "char \<Rightarrow> bool" where
  "is_word c =
     (let n = (of_char c :: nat) in
      (48 \<le> n \<and> n \<le> 57) \<or> (65 \<le> n \<and> n \<le> 90) \<or> n = 95 \<or> (97 \<le> n \<and> n \<le> 122))"

definition is_digit :: "char \<Rightarrow> bool" where
  "is_digit c = (let n = (of_char c :: nat) in 48 \<le> n \<and> n \<le> 57)"

definition is_space :: "char \<Rightarrow> bool" where
  "is_space c = (let n = (of_char c :: nat) in (9 \<le> n \<and> n \<le> 13) \<or> n = 32 \<or> n = 160)"

definition url_class :: "char \<Rightarrow> bool" where
  "url_class c =
     (is_word c \<or> c = CHR ''/'' \<or> is_digit c \<or> c = CHR ''_'' \<or> c = CHR ''.'' \<or> c = CHR ''-'')"

definition key_class :: "char \<Rightarrow> bool" where
  "key_class c = (is_word c \<or> is_digit c \<or> c = CHR ''_'' \<or> c = CHR ''.'' \<or> c = CHR ''-'')"

definition REF_OPEN :: string where
  \<open>REF_OPEN = ''"$ref"''\<close>

definition DQUOTE :: string where
  \<open>DQUOTE = ''"''\<close>

definition PROPERTIES :: string where
  "PROPERTIES = ''#/properties/''"

text \<open>A literal piece of the pattern: the text must start with it.\<close>

fun literal :: "string \<Rightarrow> string \<Rightarrow> string option" where
  "literal [] text = Some text"
| "literal (c # cs) [] = None"
| "literal (c # cs) (d # ds) = (if c = d then literal cs ds else None)"

text \<open>
  One attempt of the pattern at the start of a text: the first group, the second group and
  the text after the match. Every quantifier of the pattern is followed by a character
  outside the class it repeats (\<^verbatim>\<open>\s*\<close> by a colon or a quote, \<^verbatim>\<open>s?\<close> by a colon, the two
  classes by \<^verbatim>\<open>#\<close> and by a quote), so a greedy attempt that fails cannot be repaired by
  giving characters back, and the attempt is written without backtracking. Lemma
  \<open>match_at_iff\<close> below shows that it succeeds exactly on the texts of the pattern.
\<close>

definition match_at :: "string \<Rightarrow> (string \<times> string \<times> string) option" where
  "match_at text =
     (case literal REF_OPEN text of
        None \<Rightarrow> None
      | Some t1 \<Rightarrow>
     (case literal '':'' (dropWhile is_space t1) of
        None \<Rightarrow> None
      | Some t2 \<Rightarrow>
     (case literal DQUOTE (dropWhile is_space t2) of
        None \<Rightarrow> None
      | Some t3 \<Rightarrow>
     (case literal ''http'' t3 of
        None \<Rightarrow> None
      | Some t4 \<Rightarrow>
     (let s = (if take 1 t4 = ''s'' then ''s'' else []) in
      case literal ''://'' (drop (length s) t4) of
        None \<Rightarrow> None
      | Some t6 \<Rightarrow>
     (let u = takeWhile url_class t6 in
      if u = [] then None
      else
     (case literal PROPERTIES (dropWhile url_class t6) of
        None \<Rightarrow> None
      | Some t7 \<Rightarrow>
     (let key = takeWhile key_class t7 in
      if key = [] then None
      else
     (case literal DQUOTE (dropWhile key_class t7) of
        None \<Rightarrow> None
      | Some rest \<Rightarrow> Some (''http'' @ s @ ''://'' @ u, key, rest))))))))))"

text \<open>
  \<^verbatim>\<open>regexp.exec(text)\<close> of a global pattern: the leftmost match that starts at
  \<open>lastIndex\<close> or later, with the new \<open>lastIndex\<close> (the end of the match); \<open>None\<close> for
  \<^verbatim>\<open>null\<close>.
\<close>

function regexp_exec :: "string \<Rightarrow> nat \<Rightarrow> (string \<times> string \<times> nat) option" where
  "regexp_exec text lastIndex =
     (if length text < lastIndex then None
      else
        (case match_at (drop lastIndex text) of
           Some (url, key, rest) \<Rightarrow> Some (url, key, length text - length rest)
         | None \<Rightarrow> regexp_exec text (lastIndex + 1)))"
  by pat_completeness auto
termination
  by (relation "measure (\<lambda>(text, lastIndex). Suc (length text) - lastIndex)") auto

declare regexp_exec.simps [simp del]

section \<open>Facts about one attempt of the pattern\<close>

lemma literal_iff: "literal l t = Some r \<longleftrightarrow> t = l @ r"
  by (induction l t rule: literal.induct) auto

text \<open>
  The texts of the pattern, read off the regular expression from left to right: the
  opening literal, whitespace, a colon, whitespace, a quote, the first group (\<^verbatim>\<open>http\<close>, an
  optional \<^verbatim>\<open>s\<close>, \<^verbatim>\<open>://\<close>, one or more characters of the first class), the literal
  \<^verbatim>\<open>#/properties/\<close>, the second group (one or more characters of the second class) and
  the closing quote.
\<close>

definition ref_text :: "string \<Rightarrow> string \<Rightarrow> string \<Rightarrow> string \<Rightarrow> string \<Rightarrow> string" where
  "ref_text ws1 ws2 s u key =
     REF_OPEN @ ws1 @ '':'' @ ws2 @ DQUOTE @ ''http'' @ s @ ''://'' @ u @ PROPERTIES @ key @ DQUOTE"

definition well_formed :: "string \<Rightarrow> string \<Rightarrow> string \<Rightarrow> string \<Rightarrow> string \<Rightarrow> bool" where
  "well_formed ws1 ws2 s u key =
     (list_all is_space ws1 \<and> list_all is_space ws2 \<and> (s = [] \<or> s = ''s'') \<and>
      u \<noteq> [] \<and> list_all url_class u \<and> key \<noteq> [] \<and> list_all key_class key)"

lemma not_space_colon: "\<not> is_space CHR '':''"
  by (simp add: is_space_def)

lemma not_space_dquote: "\<not> is_space CHR 0x22"
  by (simp add: is_space_def)

lemma not_url_hash: "\<not> url_class CHR ''#''"
  by (simp add: url_class_def is_word_def is_digit_def)

lemma not_key_dquote: "\<not> key_class CHR 0x22"
  by (simp add: key_class_def is_word_def is_digit_def)

lemma dropWhile_run: "list_all P xs \<Longrightarrow> \<not> P c \<Longrightarrow> dropWhile P (xs @ c # r) = c # r"
  by (induction xs) auto

lemma takeWhile_run: "list_all P xs \<Longrightarrow> \<not> P c \<Longrightarrow> takeWhile P (xs @ c # r) = xs"
  by (induction xs) auto

lemma match_at_complete:
  assumes "well_formed ws1 ws2 s u key"
  shows "match_at (ref_text ws1 ws2 s u key @ rest) = Some (''http'' @ s @ ''://'' @ u, key, rest)"
proof -
  from assms have w1: "list_all is_space ws1" and w2: "list_all is_space ws2"
    and s: "s = [] \<or> s = ''s''" and u: "u \<noteq> []" "list_all url_class u"
    and k: "key \<noteq> []" "list_all key_class key"
    by (simp_all add: well_formed_def)
  note runs =
    dropWhile_run[OF w1 not_space_colon, simplified]
    dropWhile_run[OF w2 not_space_dquote, simplified]
    takeWhile_run[OF u(2) not_url_hash, simplified]
    dropWhile_run[OF u(2) not_url_hash, simplified]
    takeWhile_run[OF k(2) not_key_dquote, simplified]
    dropWhile_run[OF k(2) not_key_dquote, simplified]
  show ?thesis
    using s u(1) k(1)
    by (auto simp: match_at_def ref_text_def literal_iff REF_OPEN_def DQUOTE_def
        PROPERTIES_def runs)
qed

lemma match_at_sound:
  assumes "match_at text = Some (url, key, rest)"
  shows "\<exists>ws1 ws2 s u. well_formed ws1 ws2 s u key \<and> url = ''http'' @ s @ ''://'' @ u \<and>
           text = ref_text ws1 ws2 s u key @ rest"
proof -
  define s4 where "s4 t4 = (if take 1 t4 = ''s'' then ''s'' else [])" for t4 :: string
  from assms obtain t1 t2 t3 t4 t6 t7 where
    l1: "text = REF_OPEN @ t1" and
    l2: "dropWhile is_space t1 = '':'' @ t2" and
    l3: "dropWhile is_space t2 = DQUOTE @ t3" and
    l4: "t3 = ''http'' @ t4" and
    l5: "drop (length (s4 t4)) t4 = ''://'' @ t6" and
    u: "takeWhile url_class t6 \<noteq> []" and
    l6: "dropWhile url_class t6 = PROPERTIES @ t7" and
    k: "takeWhile key_class t7 \<noteq> []" "key = takeWhile key_class t7" and
    l7: "dropWhile key_class t7 = DQUOTE @ rest" and
    url: "url = ''http'' @ s4 t4 @ ''://'' @ takeWhile url_class t6"
    unfolding match_at_def Let_def s4_def
    by (auto simp: literal_iff split: option.splits if_splits)
  have t1: "t1 = takeWhile is_space t1 @ '':'' @ t2"
    using takeWhile_dropWhile_id[of is_space t1] l2 by simp
  have t2: "t2 = takeWhile is_space t2 @ DQUOTE @ t3"
    using takeWhile_dropWhile_id[of is_space t2] l3 by simp
  have t4: "t4 = s4 t4 @ ''://'' @ t6"
    using l5 append_take_drop_id[of "length (s4 t4)" t4]
    by (auto simp: s4_def split: if_splits)
  have t6: "t6 = takeWhile url_class t6 @ PROPERTIES @ t7"
    using takeWhile_dropWhile_id[of url_class t6] l6 by simp
  have t7: "t7 = key @ DQUOTE @ rest"
    using takeWhile_dropWhile_id[of key_class t7] l7 k by simp
  have wf: "well_formed (takeWhile is_space t1) (takeWhile is_space t2) (s4 t4)
              (takeWhile url_class t6) key"
    using u k by (auto simp: well_formed_def s4_def list_all_iff dest: set_takeWhileD)
  have "text = ref_text (takeWhile is_space t1) (takeWhile is_space t2) (s4 t4)
              (takeWhile url_class t6) key @ rest"
    unfolding ref_text_def
    apply (subst l1)
    apply (subst t1)
    apply (subst t2)
    apply (subst l4)
    apply (subst t4)
    apply (subst t6)
    apply (subst t7)
    apply simp
    done
  with wf url show ?thesis by blast
qed

text \<open>
  The attempt succeeds exactly on the texts of the pattern, with the groups the pattern
  captures: whatever order a backtracking engine explores, this is the match it reports.
\<close>

lemma match_at_iff:
  "match_at text = Some (url, key, rest) \<longleftrightarrow>
     (\<exists>ws1 ws2 s u. well_formed ws1 ws2 s u key \<and> url = ''http'' @ s @ ''://'' @ u \<and>
        text = ref_text ws1 ws2 s u key @ rest)"
  using match_at_sound match_at_complete by blast

lemma match_at_consumes:
  assumes "match_at text = Some (url, key, rest)"
  shows "length rest < length text"
proof -
  from match_at_sound[OF assms] obtain ws1 ws2 s u where
    "text = ref_text ws1 ws2 s u key @ rest" by blast
  then show ?thesis by (simp add: ref_text_def REF_OPEN_def)
qed

lemma regexp_exec_advance:
  "regexp_exec t i = Some (url, key, j) \<Longrightarrow> i < j \<and> j \<le> length t"
proof (induction t i rule: regexp_exec.induct)
  case (1 t i)
  show ?case
  proof (cases "match_at (drop i t)")
    case None
    with 1 show ?thesis
      by (auto simp: regexp_exec.simps[of t i] split: if_splits)
  next
    case (Some m)
    obtain u k rest where m: "m = (u, k, rest)" by (cases m)
    from Some m have "length rest < length (drop i t)"
      using match_at_consumes by blast
    with 1 Some m show ?thesis
      by (auto simp: regexp_exec.simps[of t i] split: if_splits)
  qed
qed

section \<open>The index of references\<close>

text \<open>
  The loop of \<^verbatim>\<open>findAllRefs\<close>:
  \<^verbatim>\<open>while ((match = regexp.exec(text)) !== null) { urls.set(match[2], match[1]) }\<close>.
  The state is the pattern's \<open>lastIndex\<close> and the map.
\<close>

function findAllRefs_loop :: "string \<Rightarrow> nat \<Rightarrow> (string \<rightharpoonup> string) \<Rightarrow> (string \<rightharpoonup> string)" where
  "findAllRefs_loop text lastIndex urls =
     (case regexp_exec text lastIndex of
        None \<Rightarrow> urls
      | Some (url, key, lastIndex') \<Rightarrow> findAllRefs_loop text lastIndex' (urls(key \<mapsto> url)))"
  by pat_completeness auto
termination
proof (relation "measure (\<lambda>(text, lastIndex, urls). length text - lastIndex)")
  show "wf (measure (\<lambda>(text, lastIndex, urls). length text - lastIndex))"
    by simp
next
  fix t :: string and i :: nat and urls :: "string \<rightharpoonup> string"
    and m url r key j
  assume "regexp_exec t i = Some m" "(url, r) = m" "(key, j) = r"
  then have "regexp_exec t i = Some (url, key, j)" by simp
  from regexp_exec_advance[OF this]
  show "((t, j, urls(key \<mapsto> url)), (t, i, urls))
          \<in> measure (\<lambda>(text, lastIndex, urls). length text - lastIndex)"
    by auto
qed

declare findAllRefs_loop.simps [simp del]

text \<open>
  \<^verbatim>\<open>findAllRefs\<close>: a fresh pattern (its \<open>lastIndex\<close> is 0), an empty map, the serialized
  parent schema.
\<close>

definition findAllRefs :: "('n json \<Rightarrow> string) \<Rightarrow> 'n json \<Rightarrow> (string \<rightharpoonup> string)" where
  "findAllRefs stringify jsonParentSchema =
     (let urls = Map.empty;
          text = stringify jsonParentSchema
      in findAllRefs_loop text 0 urls)"

section \<open>The pipeline\<close>

text \<open>
  \<^verbatim>\<open>getValidateFunctionFromUrl\<close> (defined in the script, never called by it); \<open>n\<close> says
  which call of \<^verbatim>\<open>fetch\<close> it makes.
\<close>

definition getValidateFunctionFromUrl ::
    "('n, 'e) platform \<Rightarrow> nat \<Rightarrow> string \<Rightarrow> jserror + ('n json \<Rightarrow> jserror + 'e outcome)" where
  "getValidateFunctionFromUrl p n urlFileSchema =
     (case readHttpsJsonUrl (fetch p n) urlFileSchema of
        Inl e \<Rightarrow> Inl e
      | Inr schema \<Rightarrow>
          (case delete_schema schema of
             Inl e \<Rightarrow> Inl e
           | Inr schema' \<Rightarrow> ajv_compile p schema'))"

text \<open>
  \<^verbatim>\<open>main\<close>. The two synchronous reads come first; the rest is the body of the asynchronous
  function, whose \<^verbatim>\<open>await\<close>s are sequential. An error raised anywhere ends the run.
\<close>

definition main :: "('n, 'e) platform \<Rightarrow> string list \<Rightarrow> ('n, 'e) run" where
  "main p process_argv =
     (case readInputParameters process_argv of
        Inl e \<Rightarrow> \<lparr>events = [], raised = Some e\<rparr>
      | Inr filenameToValidate \<Rightarrow>
     (case readJsonFile p filenameToValidate of
        Inl e \<Rightarrow> \<lparr>events = [], raised = Some e\<rparr>
      | Inr jsonFile \<Rightarrow>
     (case readHttpsJsonUrl (fetch p 0) PARENT_SCHEME_URL of
        Inl e \<Rightarrow> \<lparr>events = [Fetch PARENT_SCHEME_URL], raised = Some e\<rparr>
      | Inr jsonParentSchema \<Rightarrow>
     (let subSchemes = findAllRefs (JSON_stringify p) jsonParentSchema in
      case getJsonFileType jsonFile subSchemes of
        Inl e \<Rightarrow> \<lparr>events = [Fetch PARENT_SCHEME_URL], raised = Some e\<rparr>
      | Inr jsonFileType \<Rightarrow>
     (case subSchemes jsonFileType of
        None \<Rightarrow>
          \<lparr>events = [Fetch PARENT_SCHEME_URL,
                     ConsoleLog (''Json object invalid: '' @ jsonFileType)],
           raised = None\<rparr>
      | Some urlFileTypeSchema \<Rightarrow>
     (case readHttpsJsonUrl (fetch p 1) urlFileTypeSchema of
        Inl e \<Rightarrow>
          \<lparr>events = [Fetch PARENT_SCHEME_URL, Fetch urlFileTypeSchema], raised = Some e\<rparr>
      | Inr schema \<Rightarrow>
     (case delete_schema schema of
        Inl e \<Rightarrow>
          \<lparr>events = [Fetch PARENT_SCHEME_URL, Fetch urlFileTypeSchema], raised = Some e\<rparr>
      | Inr schema' \<Rightarrow>
     (case ajv_compile p schema' of
        Inl e \<Rightarrow>
          \<lparr>events = [Fetch PARENT_SCHEME_URL, Fetch urlFileTypeSchema, Compile schema'],
           raised = Some e\<rparr>
      | Inr validate \<Rightarrow>
     (case delete_schema jsonFile of
        Inl e \<Rightarrow>
          \<lparr>events = [Fetch PARENT_SCHEME_URL, Fetch urlFileTypeSchema, Compile schema'],
           raised = Some e\<rparr>
      | Inr jsonFile' \<Rightarrow>
     (case validate jsonFile' of
        Inl e \<Rightarrow>
          \<lparr>events = [Fetch PARENT_SCHEME_URL, Fetch urlFileTypeSchema, Compile schema',
                     Validate jsonFile'],
           raised = Some e\<rparr>
      | Inr result \<Rightarrow>
          if \<not> valid result then
            \<lparr>events = [Fetch PARENT_SCHEME_URL, Fetch urlFileTypeSchema, Compile schema',
                       Validate jsonFile',
                       ConsoleError ''Validation errors:'' (errors result)],
             raised = None\<rparr>
          else
            \<lparr>events = [Fetch PARENT_SCHEME_URL, Fetch urlFileTypeSchema, Compile schema',
                       Validate jsonFile', ConsoleLog ''The file is valid''],
             raised = None\<rparr>))))))))))"

section \<open>The validation primitive\<close>

text \<open>
  Modelled from the spec: the validator that schema compilation returns and its application
  to a document (\<^verbatim>\<open>ValidationEngine.validate\<close>). The script obtains it from a library
  that is not part of the sources. The specification says of it: it never throws for a
  merely non-conforming document; non-conformance is expressed as an outcome with
  \<open>valid = false\<close> and a non-empty sequence of errors; only infrastructure failures, such as
  an absent validator, are exceptions. So a compiled validator is given by the violations it
  finds in a document, and a document conforms when it finds none.
\<close>

definition ValidationEngine_validate ::
    "('n json \<Rightarrow> 'e list) option \<Rightarrow> 'n json \<Rightarrow> jserror + 'e outcome" where
  "ValidationEngine_validate validator document =
     (case validator of
        None \<Rightarrow> Inl (PlatformError ''no validator'')
      | Some violations \<Rightarrow>
          Inr \<lparr>valid = (violations document = []), errors = violations document\<rparr>)"

section \<open>The matches a text contains\<close>

text \<open>
  The successive results of \<^verbatim>\<open>regexp.exec\<close> on a text, from a given \<open>lastIndex\<close> until it
  returns \<^verbatim>\<open>null\<close>: the occurrences of the pattern in the text, leftmost first and without
  overlap, each with the index at which it ends.
\<close>

function exec_results :: "string \<Rightarrow> nat \<Rightarrow> (string \<times> string \<times> nat) list" where
  "exec_results text lastIndex =
     (case regexp_exec text lastIndex of
        None \<Rightarrow> []
      | Some (url, key, lastIndex') \<Rightarrow> (url, key, lastIndex') # exec_results text lastIndex')"
  by pat_completeness auto
termination
proof (relation "measure (\<lambda>(text, lastIndex). length text - lastIndex)")
  show "wf (measure (\<lambda>(text, lastIndex). length text - lastIndex))"
    by simp
next
  fix t :: string and i :: nat and m url r key j
  assume "regexp_exec t i = Some m" "(url, r) = m" "(key, j) = r"
  then have "regexp_exec t i = Some (url, key, j)" by simp
  from regexp_exec_advance[OF this]
  show "((t, j), (t, i)) \<in> measure (\<lambda>(text, lastIndex). length text - lastIndex)"
    by auto
qed

declare exec_results.simps [simp del]

text \<open>The entry a match contributes, and the references of a text in the order they occur.\<close>

definition ref_of :: "string \<times> string \<times> nat \<Rightarrow> string \<times> string" where
  "ref_of r = (case r of (url, key, lastIndex) \<Rightarrow> (key, url))"

definition ref_matches :: "string \<Rightarrow> (string \<times> string) list" where
  "ref_matches text = map ref_of (exec_results text 0)"

text \<open>
  A text written out as what it contains: each occurrence of a reference is the text that
  precedes it since the previous one (the gap) and the parts of the pattern, as in
  \<open>ref_text\<close>. An occurrence is in order when its pattern is well formed and its gap does
  not contain the opening literal of the pattern.
\<close>

record occurrence =
  occ_gap :: string
  occ_ws1 :: string
  occ_ws2 :: string
  occ_s :: string
  occ_u :: string
  occ_key :: string

definition occ_text :: "occurrence \<Rightarrow> string" where
  "occ_text x = occ_gap x @ ref_text (occ_ws1 x) (occ_ws2 x) (occ_s x) (occ_u x) (occ_key x)"

definition occ_ok :: "occurrence \<Rightarrow> bool" where
  "occ_ok x =
     (\<not> sublist REF_OPEN (occ_gap x) \<and>
      well_formed (occ_ws1 x) (occ_ws2 x) (occ_s x) (occ_u x) (occ_key x))"

definition occ_ref :: "occurrence \<Rightarrow> string \<times> string" where
  "occ_ref x = (occ_key x, ''http'' @ occ_s x @ ''://'' @ occ_u x)"

text \<open>
  Ghost counters for the cost of the scan: the number of positions at which one call of
  \<^verbatim>\<open>regexp.exec\<close> attempts the pattern, and the sum over all the calls of the loop.
\<close>

function exec_attempts :: "string \<Rightarrow> nat \<Rightarrow> nat" where
  "exec_attempts text lastIndex =
     (if length text < lastIndex then 0
      else
        (case match_at (drop lastIndex text) of
           Some m \<Rightarrow> 1
         | None \<Rightarrow> 1 + exec_attempts text (lastIndex + 1)))"
  by pat_completeness auto
termination
  by (relation "measure (\<lambda>(text, lastIndex). Suc (length text) - lastIndex)") auto

declare exec_attempts.simps [simp del]

function loop_attempts :: "string \<Rightarrow> nat \<Rightarrow> nat" where
  "loop_attempts text lastIndex =
     exec_attempts text lastIndex +
     (case regexp_exec text lastIndex of
        None \<Rightarrow> 0
      | Some (url, key, lastIndex') \<Rightarrow> loop_attempts text lastIndex')"
  by pat_completeness auto
termination
proof (relation "measure (\<lambda>(text, lastIndex). length text - lastIndex)")
  show "wf (measure (\<lambda>(text, lastIndex). length text - lastIndex))"
    by simp
next
  fix t :: string and i :: nat and m url r key j
  assume "regexp_exec t i = Some m" "(url, r) = m" "(key, j) = r"
  then have "regexp_exec t i = Some (url, key, j)" by simp
  from regexp_exec_advance[OF this]
  show "((t, j), (t, i)) \<in> measure (\<lambda>(text, lastIndex). length text - lastIndex)"
    by auto
qed

declare loop_attempts.simps [simp del]

text \<open>The locators a run fetched, in order.\<close>

definition fetched :: "('n, 'e) run \<Rightarrow> string list" where
  "fetched r = concat (map (\<lambda>ev. case ev of Fetch url \<Rightarrow> [url] | _ \<Rightarrow> []) (events r))"

section \<open>An example run\<close>

text \<open>
  The end-to-end example of the specification: a parent schema with one reference, the
  sub-schema it points to, and input documents of three shapes. The platform of the example
  holds one input file, answers the two locators, and compiles every schema to a validator
  with a fixed verdict. A second text holds three references, two of them with the same key,
  and is also written out as its occurrences.
\<close>

definition example_parent_text :: string where
  \<open>example_parent_text =
     ''{"properties":{"invoice":{"$ref":"https://x/invoice.json#/properties/invoice"}}}''\<close>

definition example_parent :: "int json" where
  "example_parent =
     JObject [(''properties'', JObject [(''invoice'',
       JObject [(''$ref'', JString ''https://x/invoice.json#/properties/invoice'')])])]"

definition example_subschema :: "int json" where
  "example_subschema =
     JObject [(''$schema'', JString ''http://json-schema.org/draft-07/schema#''),
              (''type'', JString ''object'')]"

definition example_platform :: "int json \<Rightarrow> string outcome \<Rightarrow> (int, string) platform" where
  "example_platform input verdict =
     \<lparr>readFileSync = (\<lambda>path. if path = ''../resources/input.json'' then Inr ''input''
                               else Inl (PlatformError ''ENOENT'')),
      JSON_parse = (\<lambda>content. Inr input),
      JSON_stringify = (\<lambda>j. example_parent_text),
      fetch = (\<lambda>n url ms.
                 if url = PARENT_SCHEME_URL then Response True (Inr example_parent)
                 else if url = ''https://x/invoice.json'' then Response True (Inr example_subschema)
                 else Response False (Inl (PlatformError ''SyntaxError''))),
      ajv_compile = (\<lambda>schema. Inr (\<lambda>doc. Inr verdict))\<rparr>"

definition example_argv :: "string list" where
  "example_argv = [''node'', ''validator01.js'', ''input.json'']"

definition example_invoice :: "int json" where
  "example_invoice =
     JObject [(''$schema'', JString ''https://x/parent.json''),
              (''invoice'', JObject [(''id'', JNumber 1)])]"

definition example_salesorder :: "int json" where
  "example_salesorder = JObject [(''salesorder'', JObject [])]"

definition example_two_keys :: "int json" where
  "example_two_keys = JObject [(''invoice'', JObject []), (''creditmemo'', JObject [])]"

definition example_invalid :: "string outcome" where
  "example_invalid = \<lparr>valid = False, errors = [''/invoice/id must be string'']\<rparr>"

definition example_three_refs :: string where
  \<open>example_three_refs =
     ''{"a":{"$ref":"https://x/one.json#/properties/invoice"},"b":{"$ref":"http://x/two.json#/properties/order"},"c":{"$ref":"https://x/three.json#/properties/invoice"}}''\<close>

definition example_occurrences :: "occurrence list" where
  \<open>example_occurrences =
     [\<lparr>occ_gap = ''{"a":{'', occ_ws1 = [], occ_ws2 = [], occ_s = ''s'',
        occ_u = ''x/one.json'', occ_key = ''invoice''\<rparr>,
      \<lparr>occ_gap = ''},"b":{'', occ_ws1 = [], occ_ws2 = [], occ_s = [],
        occ_u = ''x/two.json'', occ_key = ''order''\<rparr>,
      \<lparr>occ_gap = ''},"c":{'', occ_ws1 = [], occ_ws2 = [], occ_s = ''s'',
        occ_u = ''x/three.json'', occ_key = ''invoice''\<rparr>]\<close>

text \<open>The example with a validator of the validation primitive as compiled validator.\<close>

definition example_violations :: "int json \<Rightarrow> string list" where
  "example_violations document =
     (if document = JObject [(''invoice'', JObject [(''id'', JNumber 1)])]
      then [''/invoice/id must be string''] else [])"

definition example_engine_platform :: "int json \<Rightarrow> (int, string) platform" where
  "example_engine_platform input =
     (example_platform input example_invalid)
       \<lparr>ajv_compile := (\<lambda>schema. Inr (ValidationEngine_validate (Some example_violations)))\<rparr>"

section \<open>The loop and the matches\<close>

lemma loop_as_map_of:
  "findAllRefs_loop t i urls = urls ++ map_of (rev (map ref_of (exec_results t i)))"
proof (induction t i urls rule: findAllRefs_loop.induct)
  case (1 t i urls)
  show ?case
  proof (cases "regexp_exec t i")
    case None
    then show ?thesis
      by (simp add: findAllRefs_loop.simps[of t i] exec_results.simps[of t i])
  next
    case (Some r)
    obtain url key j where r: "r = (url, key, j)" by (cases r)
    have step: "findAllRefs_loop t i urls = findAllRefs_loop t j (urls(key \<mapsto> url))"
      using Some r by (simp add: findAllRefs_loop.simps[of t i])
    have ih: "findAllRefs_loop t j (urls(key \<mapsto> url))
                = (urls(key \<mapsto> url)) ++ map_of (rev (map ref_of (exec_results t j)))"
      using Some r by (intro 1) auto
    have unroll: "exec_results t i = (url, key, j) # exec_results t j"
      using Some r by (simp add: exec_results.simps[of t i])
    have "(urls(key \<mapsto> url)) ++ map_of (rev (map ref_of (exec_results t j)))
            = urls ++ map_of (rev (map ref_of (exec_results t i)))"
      unfolding unroll
      by (rule ext) (simp add: ref_of_def map_add_def split: option.splits)
    with step ih show ?thesis by simp
  qed
qed


lemma findAllRefs_map_of:
  "findAllRefs stringify parent = map_of (rev (ref_matches (stringify parent)))"
  by (simp add: findAllRefs_def ref_matches_def loop_as_map_of)

lemma dom_map_of_rev: "dom (map_of (rev ms)) = set (map fst ms)"
  by (simp add: dom_map_of_conv_image_fst)

lemma map_of_rev_last:
  assumes "ms = before @ (key, url) # after" "key \<notin> fst ` set after"
  shows "map_of (rev ms) key = Some url"
proof -
  have "map_of (rev after) key = None"
    using assms(2) by (simp add: map_of_eq_None_iff)
  then show ?thesis
    by (simp add: assms(1) map_add_def)
qed


lemma exec_attempts_bound:
  "(regexp_exec t i = None \<longrightarrow> exec_attempts t i \<le> Suc (length t) - i) \<and>
   (\<forall>url key j. regexp_exec t i = Some (url, key, j) \<longrightarrow> i + exec_attempts t i \<le> j)"
proof (induction t i rule: regexp_exec.induct)
  case (1 t i)
  show ?case
  proof (cases "length t < i")
    case True
    then show ?thesis
      by (simp add: regexp_exec.simps[of t i] exec_attempts.simps[of t i])
  next
    case False
    show ?thesis
    proof (cases "match_at (drop i t)")
      case None
      with False 1 show ?thesis
        by (auto simp: regexp_exec.simps[of t i] exec_attempts.simps[of t i])
    next
      case (Some m)
      obtain u k rest where m: "m = (u, k, rest)" by (cases m)
      from Some m have "length rest < length (drop i t)"
        using match_at_consumes by blast
      with False Some m show ?thesis
        by (auto simp: regexp_exec.simps[of t i] exec_attempts.simps[of t i])
    qed
  qed
qed

lemma loop_attempts_bound: "loop_attempts t i \<le> Suc (length t) - i"
proof (induction t i rule: loop_attempts.induct)
  case (1 t i)
  show ?case
  proof (cases "regexp_exec t i")
    case None
    with exec_attempts_bound[of t i] show ?thesis
      by (simp add: loop_attempts.simps[of t i])
  next
    case (Some r)
    obtain url key j where r: "r = (url, key, j)" by (cases r)
    have ih: "loop_attempts t j \<le> Suc (length t) - j"
      using Some r by (intro 1) auto
    from exec_attempts_bound[of t i] Some r have e: "i + exec_attempts t i \<le> j" by simp
    from regexp_exec_advance[of t i url key j] Some r have "j \<le> length t" by simp
    with ih e Some r show ?thesis
      by (simp add: loop_attempts.simps[of t i])
  qed
qed

lemma exec_results_bounds:
  "(url, key, j) \<in> set (exec_results t i) \<Longrightarrow> i < j \<and> j \<le> length t"
proof (induction t i rule: exec_results.induct)
  case (1 t i)
  show ?case
  proof (cases "regexp_exec t i")
    case None
    with 1(2) show ?thesis by (simp add: exec_results.simps[of t i])
  next
    case (Some r)
    obtain url' key' j' where r: "r = (url', key', j')" by (cases r)
    from regexp_exec_advance[of t i url' key' j'] Some r have adv: "i < j'" "j' \<le> length t"
      by simp_all
    from 1(2) Some r have "(url, key, j) = (url', key', j') \<or> (url, key, j) \<in> set (exec_results t j')"
      by (simp add: exec_results.simps[of t i])
    then show ?thesis
    proof
      assume "(url, key, j) = (url', key', j')"
      with adv show ?thesis by simp
    next
      assume "(url, key, j) \<in> set (exec_results t j')"
      then have "j' < j \<and> j \<le> length t"
        using Some r by (intro 1(1)) auto
      with adv show ?thesis by simp
    qed
  qed
qed

lemma exec_results_increasing:
  "sorted_wrt (<) (map (\<lambda>r. snd (snd r)) (exec_results t i))"
proof (induction t i rule: exec_results.induct)
  case (1 t i)
  show ?case
  proof (cases "regexp_exec t i")
    case None
    then show ?thesis by (simp add: exec_results.simps[of t i])
  next
    case (Some r)
    obtain url key j where r: "r = (url, key, j)" by (cases r)
    have ih: "sorted_wrt (<) (map (\<lambda>r. snd (snd r)) (exec_results t j))"
      using Some r by (intro 1) auto
    have "\<forall>x \<in> set (exec_results t j). j < snd (snd x)"
      using exec_results_bounds[of _ _ _ t j] by auto
    with ih Some r show ?thesis
      by (simp add: exec_results.simps[of t i])
  qed
qed

lemma regexp_exec_occurs:
  "regexp_exec t i = Some (url, key, j) \<Longrightarrow> sublist (DQUOTE @ url @ PROPERTIES @ key @ DQUOTE) t"
proof (induction t i rule: regexp_exec.induct)
  case (1 t i)
  show ?case
  proof (cases "match_at (drop i t)")
    case None
    with 1 show ?thesis
      by (auto simp: regexp_exec.simps[of t i] split: if_splits)
  next
    case (Some m)
    obtain u k rest where m: "m = (u, k, rest)" by (cases m)
    with Some 1(2) have uk: "u = url" "k = key"
      by (auto simp: regexp_exec.simps[of t i] split: if_splits)
    from match_at_sound[of "drop i t" u k rest] Some m obtain ws1 ws2 s u0 where
      "u = ''http'' @ s @ ''://'' @ u0" "drop i t = ref_text ws1 ws2 s u0 k @ rest"
      by auto
    then have "drop i t = (REF_OPEN @ ws1 @ '':'' @ ws2) @ (DQUOTE @ u @ PROPERTIES @ k @ DQUOTE) @ rest"
      by (simp add: ref_text_def)
    then have "sublist (DQUOTE @ u @ PROPERTIES @ k @ DQUOTE) (drop i t)"
      unfolding sublist_def by blast
    then have "sublist (DQUOTE @ u @ PROPERTIES @ k @ DQUOTE) t"
      using sublist_drop sublist_order.order_trans by blast
    with uk show ?thesis by simp
  qed
qed

lemma exec_results_occur:
  "(url, key, j) \<in> set (exec_results t i) \<Longrightarrow> sublist (DQUOTE @ url @ PROPERTIES @ key @ DQUOTE) t"
proof (induction t i rule: exec_results.induct)
  case (1 t i)
  show ?case
  proof (cases "regexp_exec t i")
    case None
    with 1(2) show ?thesis by (simp add: exec_results.simps[of t i])
  next
    case (Some r)
    obtain url' key' j' where r: "r = (url', key', j')" by (cases r)
    from 1(2) Some r have "(url, key, j) = (url', key', j') \<or> (url, key, j) \<in> set (exec_results t j')"
      by (simp add: exec_results.simps[of t i])
    then show ?thesis
    proof
      assume "(url, key, j) = (url', key', j')"
      with Some r regexp_exec_occurs[of t i url key j] show ?thesis by simp
    next
      assume "(url, key, j) \<in> set (exec_results t j')"
      then show ?thesis
        using Some r by (intro 1(1)) auto
    qed
  qed
qed

lemma findAllRefs_occur:
  assumes "findAllRefs stringify parent key = Some url"
  shows "sublist (DQUOTE @ url @ PROPERTIES @ key @ DQUOTE) (stringify parent)"
proof -
  from assms have "map_of (rev (ref_matches (stringify parent))) key = Some url"
    by (simp only: findAllRefs_map_of)
  then have "(key, url) \<in> set (ref_matches (stringify parent))"
    using map_of_SomeD by fastforce
  then obtain j where "(url, key, j) \<in> set (exec_results (stringify parent) 0)"
    by (auto simp: ref_matches_def ref_of_def)
  then show ?thesis by (rule exec_results_occur)
qed

text \<open>
  The matches of a text do not depend on what was scanned before: scanning a longer text
  from the end of a prefix finds the matches of the rest.
\<close>

lemma regexp_exec_shift:
  "regexp_exec (pre @ t) (length pre + i)
     = map_option (\<lambda>(url, key, j). (url, key, length pre + j)) (regexp_exec t i)"
proof (induction t i rule: regexp_exec.induct)
  case (1 t i)
  show ?case
  proof (cases "length t < i")
    case True
    then show ?thesis
      by (simp add: regexp_exec.simps[of t i] regexp_exec.simps[of "pre @ t" "length pre + i"])
  next
    case False
    show ?thesis
    proof (cases "match_at (drop i t)")
      case None
      with False 1 show ?thesis
        by (simp add: regexp_exec.simps[of t i] regexp_exec.simps[of "pre @ t" "length pre + i"])
    next
      case (Some m)
      obtain u k rest where m: "m = (u, k, rest)" by (cases m)
      from Some m have "length rest < length (drop i t)"
        using match_at_consumes by blast
      with False Some m show ?thesis
        by (simp add: regexp_exec.simps[of t i] regexp_exec.simps[of "pre @ t" "length pre + i"])
    qed
  qed
qed

lemma ref_of_simp: "ref_of (url, key, j) = (key, url)"
  by (simp add: ref_of_def)

lemma exec_results_shift:
  "map ref_of (exec_results (pre @ t) (length pre + i)) = map ref_of (exec_results t i)"
proof (induction t i rule: exec_results.induct)
  case (1 t i)
  show ?case
  proof (cases "regexp_exec t i")
    case None
    then show ?thesis
      using regexp_exec_shift[of pre t i]
      by (simp add: exec_results.simps[of t i] exec_results.simps[of "pre @ t" "length pre + i"])
  next
    case (Some r)
    obtain url key j where r: "r = (url, key, j)" by (cases r)
    have ih: "map ref_of (exec_results (pre @ t) (length pre + j)) = map ref_of (exec_results t j)"
      using Some r by (intro 1) auto
    have a: "exec_results t i = (url, key, j) # exec_results t j"
      using Some r by (simp add: exec_results.simps[of t i])
    have b: "exec_results (pre @ t) (length pre + i)
               = (url, key, length pre + j) # exec_results (pre @ t) (length pre + j)"
      using Some r regexp_exec_shift[of pre t i]
      by (simp add: exec_results.simps[of "pre @ t" "length pre + i"])
    show ?thesis
      unfolding a b using ih by (simp add: ref_of_simp)
  qed
qed

lemma ref_matches_skip_char:
  assumes "match_at (c # t) = None"
  shows "ref_matches (c # t) = ref_matches t"
proof -
  have "regexp_exec (c # t) 0 = regexp_exec (c # t) (Suc 0)"
    using assms by (simp add: regexp_exec.simps[of "c # t" 0])
  then have "exec_results (c # t) 0 = exec_results (c # t) (Suc 0)"
    by (simp add: exec_results.simps[of "c # t" 0] exec_results.simps[of "c # t" "Suc 0"])
  moreover have "map ref_of (exec_results ([c] @ t) (length [c] + 0)) = map ref_of (exec_results t 0)"
    by (rule exec_results_shift)
  ultimately show ?thesis by (simp add: ref_matches_def)
qed

lemma ref_matches_match:
  assumes "match_at t = Some (url, key, rest)"
  shows "ref_matches t = (key, url) # ref_matches rest"
proof -
  from match_at_sound[OF assms] obtain m where t: "t = m @ rest" by blast
  have e: "regexp_exec (m @ rest) 0 = Some (url, key, length m)"
    using assms t by (simp add: regexp_exec.simps[of "m @ rest" 0])
  have a: "exec_results (m @ rest) 0 = (url, key, length m) # exec_results (m @ rest) (length m)"
    using e by (simp add: exec_results.simps[of "m @ rest" 0])
  have "map ref_of (exec_results (m @ rest) (length m + 0)) = map ref_of (exec_results rest 0)"
    by (rule exec_results_shift)
  with a show ?thesis
    by (simp add: ref_matches_def t ref_of_simp)
qed

lemma ref_matches_Nil: "ref_matches [] = []"
  by code_simp

lemma match_at_gap:
  assumes "\<not> prefix REF_OPEN g" and "g \<noteq> []" and "r = [] \<or> prefix REF_OPEN r"
  shows "match_at (g @ r) = None"
proof (cases "literal REF_OPEN (g @ r)")
  case None
  then show ?thesis by (simp add: match_at_def)
next
  case (Some t1)
  then have eq: "g @ r = REF_OPEN @ t1" by (simp add: literal_iff)
  then obtain us where "(g = REF_OPEN @ us \<and> us @ r = t1) \<or> (g @ us = REF_OPEN \<and> r = us @ t1)"
    by (auto simp: append_eq_append_conv2)
  with assms(1) have us: "g @ us = REF_OPEN" "r = us @ t1"
    by (auto simp: prefix_def)
  with assms(1) have "us \<noteq> []" by (auto simp: prefix_def)
  with us(2) assms(3) obtain r' where r': "r = REF_OPEN @ r'"
    by (auto simp: prefix_def)
  from us(1) \<open>us \<noteq> []\<close> assms(2) r' us(2) have "t1 = tl REF_OPEN @ r'"
    by (auto simp: REF_OPEN_def append_eq_Cons_conv Cons_eq_append_conv)
  then have "literal '':'' (dropWhile is_space t1) = None"
    by (simp add: REF_OPEN_def is_space_def)
  with Some show ?thesis by (simp add: match_at_def)
qed

lemma ref_matches_skip_gap:
  assumes "\<not> sublist REF_OPEN g" and "r = [] \<or> prefix REF_OPEN r"
  shows "ref_matches (g @ r) = ref_matches r"
  using assms(1)
proof (induction g)
  case Nil
  then show ?case by simp
next
  case (Cons c g)
  from Cons.prems have np: "\<not> prefix REF_OPEN (c # g)" and ns: "\<not> sublist REF_OPEN g"
    by (auto simp: sublist_Cons_right)
  have "match_at ((c # g) @ r) = None"
    using np assms(2) by (intro match_at_gap) auto
  then have "ref_matches ((c # g) @ r) = ref_matches (g @ r)"
    using ref_matches_skip_char[of c "g @ r"] by simp
  with Cons.IH[OF ns] show ?case by simp
qed

lemma ref_matches_occurrences:
  assumes "\<forall>x \<in> set xs. occ_ok x" and "\<not> sublist REF_OPEN g"
  shows "ref_matches (concat (map occ_text xs) @ g) = map occ_ref xs"
  using assms(1)
proof (induction xs)
  case Nil
  show ?case
    using ref_matches_skip_gap[OF assms(2), of "[]"] by (simp add: ref_matches_Nil)
next
  case (Cons x xs)
  let ?p = "ref_text (occ_ws1 x) (occ_ws2 x) (occ_s x) (occ_u x) (occ_key x)"
  let ?r = "concat (map occ_text xs) @ g"
  from Cons.prems have ok: "\<not> sublist REF_OPEN (occ_gap x)"
    "well_formed (occ_ws1 x) (occ_ws2 x) (occ_s x) (occ_u x) (occ_key x)"
    by (simp_all add: occ_ok_def)
  have "prefix REF_OPEN (?p @ ?r)"
    by (simp add: ref_text_def prefix_def)
  then have "ref_matches (occ_gap x @ ?p @ ?r) = ref_matches (?p @ ?r)"
    using ok(1) by (intro ref_matches_skip_gap) auto
  also have "\<dots> = occ_ref x # ref_matches ?r"
    using ref_matches_match[OF match_at_complete[OF ok(2), of ?r]] by (simp add: occ_ref_def)
  also have "ref_matches ?r = map occ_ref xs"
    using Cons by simp
  finally show ?case by (simp add: occ_text_def)
qed

section \<open>Facts about the pipeline\<close>

lemma filter_keys_set:
  "set (filter (\<lambda>prop. prop \<noteq> SCHEMA_KEY) (map fst kvs)) = fst ` set kvs - {''$schema''}"
  by (auto simp: SCHEMA_KEY_def)

lemma filtered_keys_length:
  assumes "distinct (map fst kvs)"
  shows "length (filter (\<lambda>prop. prop \<noteq> SCHEMA_KEY) (map fst kvs))
           = card (fst ` set kvs - {''$schema''})"
proof -
  from assms have d: "distinct (filter (\<lambda>prop. prop \<noteq> SCHEMA_KEY) (map fst kvs))" by simp
  show ?thesis
    using distinct_card[OF d] filter_keys_set[of kvs] by simp
qed

lemma getJsonFileType_many_keys:
  assumes "distinct (map fst kvs)" "2 \<le> card (fst ` set kvs - {''$schema''})"
  shows "getJsonFileType (JObject kvs) availableTypes
           = Inl (Error ''Wrong json file, no main entity: '')"
  using assms filtered_keys_length[OF assms(1)] by (simp add: getJsonFileType_def)

lemma main_two_keys:
  assumes "readInputParameters process_argv = Inr fileName"
    and "readJsonFile p fileName = Inr (JObject kvs)"
    and "distinct (map fst kvs)" and "2 \<le> card (fst ` set kvs - {''$schema''})"
  shows "events (main p process_argv) = [Fetch PARENT_SCHEME_URL]"
    and "\<exists>e. raised (main p process_argv) = Some e"
    and "readHttpsJsonUrl (fetch p 0) PARENT_SCHEME_URL = Inr parent \<Longrightarrow>
           raised (main p process_argv) = Some (Error ''Wrong json file, no main entity: '')"
  using assms(1,2) getJsonFileType_many_keys[OF assms(3,4)]
  by (auto simp: main_def split: sum.splits)

lemma main_stage_failures:
  "(readInputParameters process_argv = Inl e \<longrightarrow>
      main p process_argv = \<lparr>events = [], raised = Some e\<rparr>) \<and>
   (readInputParameters process_argv = Inr fileName \<longrightarrow>
     (readJsonFile p fileName = Inl e \<longrightarrow>
        main p process_argv = \<lparr>events = [], raised = Some e\<rparr>) \<and>
     (readJsonFile p fileName = Inr jsonFile \<longrightarrow>
       (readHttpsJsonUrl (fetch p 0) PARENT_SCHEME_URL = Inl e \<longrightarrow>
          main p process_argv = \<lparr>events = [Fetch PARENT_SCHEME_URL], raised = Some e\<rparr>) \<and>
       (readHttpsJsonUrl (fetch p 0) PARENT_SCHEME_URL = Inr parent \<longrightarrow>
         (getJsonFileType jsonFile (findAllRefs (JSON_stringify p) parent) = Inl e \<longrightarrow>
            main p process_argv = \<lparr>events = [Fetch PARENT_SCHEME_URL], raised = Some e\<rparr>) \<and>
         (getJsonFileType jsonFile (findAllRefs (JSON_stringify p) parent) = Inr jsonFileType \<and>
          findAllRefs (JSON_stringify p) parent jsonFileType = Some url \<longrightarrow>
           (readHttpsJsonUrl (fetch p 1) url = Inl e \<longrightarrow>
              main p process_argv =
                \<lparr>events = [Fetch PARENT_SCHEME_URL, Fetch url], raised = Some e\<rparr>) \<and>
           (readHttpsJsonUrl (fetch p 1) url = Inr schema \<longrightarrow>
             (delete_schema schema = Inl e \<longrightarrow>
                main p process_argv =
                  \<lparr>events = [Fetch PARENT_SCHEME_URL, Fetch url], raised = Some e\<rparr>) \<and>
             (delete_schema schema = Inr schema' \<and> ajv_compile p schema' = Inl e \<longrightarrow>
                main p process_argv =
                  \<lparr>events = [Fetch PARENT_SCHEME_URL, Fetch url, Compile schema'],
                   raised = Some e\<rparr>))))))"
  by (simp add: main_def)

lemma main_fetches: "\<exists>u. prefix (fetched (main p process_argv)) [PARENT_SCHEME_URL, u]"
  by (auto simp: main_def fetched_def Let_def split: sum.splits option.splits)

lemma main_validation:
  assumes "readInputParameters process_argv = Inr fileName"
    and "readJsonFile p fileName = Inr jsonFile"
    and "readHttpsJsonUrl (fetch p 0) PARENT_SCHEME_URL = Inr parent"
    and "getJsonFileType jsonFile (findAllRefs (JSON_stringify p) parent) = Inr jsonFileType"
    and "findAllRefs (JSON_stringify p) parent jsonFileType = Some url"
    and "readHttpsJsonUrl (fetch p 1) url = Inr schema"
    and "delete_schema schema = Inr schema'"
    and "ajv_compile p schema' = Inr validate"
    and "delete_schema jsonFile = Inr doc"
  shows "main p process_argv =
     (case validate doc of
        Inl e \<Rightarrow>
          \<lparr>events = [Fetch PARENT_SCHEME_URL, Fetch url, Compile schema', Validate doc],
           raised = Some e\<rparr>
      | Inr result \<Rightarrow>
          if \<not> valid result then
            \<lparr>events = [Fetch PARENT_SCHEME_URL, Fetch url, Compile schema', Validate doc,
                       ConsoleError ''Validation errors:'' (errors result)],
             raised = None\<rparr>
          else
            \<lparr>events = [Fetch PARENT_SCHEME_URL, Fetch url, Compile schema', Validate doc,
                       ConsoleLog ''The file is valid''],
             raised = None\<rparr>)"
  using assms by (simp add: main_def)

lemma main_validated_document:
  assumes "readInputParameters process_argv = Inr fileName"
    and "readJsonFile p fileName = Inr jsonFile"
    and "Validate doc \<in> set (events (main p process_argv))"
  shows "delete_schema jsonFile = Inr doc"
  using assms by (auto simp: main_def Let_def split: sum.splits option.splits if_splits)

lemma main_unknown_type:
  assumes "readInputParameters process_argv = Inr fileName"
    and "readJsonFile p fileName = Inr jsonFile"
    and "readHttpsJsonUrl (fetch p 0) PARENT_SCHEME_URL = Inr parent"
    and "getJsonFileType jsonFile (findAllRefs (JSON_stringify p) parent) = Inr jsonFileType"
    and "findAllRefs (JSON_stringify p) parent jsonFileType = None"
  shows "main p process_argv =
           \<lparr>events = [Fetch PARENT_SCHEME_URL,
                      ConsoleLog (''Json object invalid: '' @ jsonFileType)],
            raised = None\<rparr>"
  using assms by (simp add: main_def)

lemma findAllRefs_no_matches:
  "ref_matches (stringify parent) = [] \<Longrightarrow> findAllRefs stringify parent key = None"
  by (simp add: findAllRefs_map_of)

lemma map_of_filter_key:
  "map_of (filter (\<lambda>kv. fst kv \<noteq> s) kvs) k = (if k = s then None else map_of kvs k)"
  by (induction kvs) auto

section \<open>The example, evaluated\<close>

lemma example_argv_ok: "readInputParameters example_argv = Inr ''input.json''"
  by code_simp

lemma example_file_ok: "readJsonFile (example_platform input verdict) ''input.json'' = Inr input"
  by (simp add: readJsonFile_def example_platform_def RESOURCES_PATH_def)

lemma example_parent_ok:
  "readHttpsJsonUrl (fetch (example_platform input verdict) 0) PARENT_SCHEME_URL = Inr example_parent"
  by (simp add: readHttpsJsonUrl_def example_platform_def)

lemma example_stringify: "JSON_stringify (example_platform input verdict) = (\<lambda>j. example_parent_text)"
  by (simp add: example_platform_def)

lemma example_matches: "ref_matches example_parent_text = [(''invoice'', ''https://x/invoice.json'')]"
  by code_simp

lemma example_index:
  "findAllRefs (\<lambda>j. example_parent_text) parent = [''invoice'' \<mapsto> ''https://x/invoice.json'']"
  by (simp add: findAllRefs_map_of example_matches)

lemma example_salesorder_type:
  "getJsonFileType example_salesorder m = Inr ''salesorder''"
  by (simp add: getJsonFileType_def example_salesorder_def SCHEMA_KEY_def)

lemma example_three_text:
  "example_three_refs = concat (map occ_text example_occurrences) @ ''}}''"
  by code_simp

lemma example_occurrences_ok: "\<forall>x \<in> set example_occurrences. occ_ok x"
  by code_simp

lemma example_last_gap: "\<not> sublist REF_OPEN ''}}''"
  by code_simp

lemma example_two_keys_distinct:
  "distinct (map fst [(''invoice'', JObject []), (''creditmemo'', JObject []) :: string \<times> int json])"
  by simp

lemma example_two_keys_card:
  "2 \<le> card (fst ` set [(''invoice'', JObject []), (''creditmemo'', JObject []) :: string \<times> int json]
      - {''$schema''})"
  by simp

lemma example_invoice_type:
  "getJsonFileType example_invoice m = Inr ''invoice''"
  by (simp add: getJsonFileType_def example_invoice_def SCHEMA_KEY_def)

lemma example_subschema_ok:
  "readHttpsJsonUrl (fetch (example_platform input verdict) 1) ''https://x/invoice.json''
     = Inr example_subschema"
  by (simp add: readHttpsJsonUrl_def example_platform_def PARENT_SCHEME_URL_def)

lemma example_subschema_stripped:
  "delete_schema example_subschema = Inr (JObject [(''type'', JString ''object'')])"
  by (simp add: example_subschema_def SCHEMA_KEY_def)

lemma example_compile_ok:
  "ajv_compile (example_platform input verdict) s = Inr (\<lambda>doc. Inr verdict)"
  by (simp add: example_platform_def)

lemma example_invoice_stripped:
  "delete_schema example_invoice = Inr (JObject [(''invoice'', JObject [(''id'', JNumber 1)])])"
  by (simp add: example_invoice_def SCHEMA_KEY_def)

lemma example_invoice_lookup:
  "findAllRefs (JSON_stringify (example_platform input verdict)) parent ''invoice''
     = Some ''https://x/invoice.json''"
  by (simp add: example_stringify example_index)

lemma example_run_invoice:
  "main (example_platform example_invoice example_invalid) example_argv =
    \<lparr>events = [Fetch PARENT_SCHEME_URL, Fetch ''https://x/invoice.json'',
                Compile (JObject [(''type'', JString ''object'')]),
                Validate (JObject [(''invoice'', JObject [(''id'', JNumber 1)])]),
                ConsoleError ''Validation errors:'' [''/invoice/id must be string'']],
     raised = None\<rparr>"
  by code_simp

section \<open>The command line\<close>

text \<open>
  Claim C7. The entry point requires exactly one positional argument. Whenever the
  arguments after the interpreter and the script path are none or two or more,
  \<^verbatim>\<open>readInputParameters\<close> raises the error \<^verbatim>\<open>Missing input json file\<close> (the usage error of
  the specification); when there is exactly one, it returns that argument.
\<close>

theorem readInputParameters_exactly_one:
  "(length (drop 2 process_argv) \<noteq> 1 \<longrightarrow>
      readInputParameters process_argv = Inl (Error ''Missing input json file'')) \<and>
   (drop 2 process_argv = [path] \<longrightarrow> readInputParameters process_argv = Inr path)"
  by (simp add: readInputParameters_def)

theorem readInputParameters_exactly_one_witness:
  "readInputParameters [''node'', ''validator01.js''] = Inl (Error ''Missing input json file'') \<and>
   readInputParameters [''node'', ''validator01.js'', ''a.json'', ''b.json'']
     = Inl (Error ''Missing input json file'') \<and>
   readInputParameters [''node'', ''validator01.js'', ''a.json''] = Inr ''a.json''"
  using readInputParameters_exactly_one [of "[''node'', ''validator01.js'']" "''a.json''"]
    readInputParameters_exactly_one
      [of "[''node'', ''validator01.js'', ''a.json'', ''b.json'']" "''a.json''"]
    readInputParameters_exactly_one [of "[''node'', ''validator01.js'', ''a.json'']" "''a.json''"]
  by simp

section \<open>Type resolution\<close>

text \<open>
  On an object, whose keys are distinct, type resolution does what the specification says.
  If the set of top-level keys other than \<^verbatim>\<open>$schema\<close> is exactly \<open>{k}\<close>,
  \<^verbatim>\<open>getJsonFileType\<close> returns \<open>k\<close>; if that set has no element or more than one, it raises
  the error \<^verbatim>\<open>Wrong json file, no main entity: \<close> (the ambiguous-or-missing-entity error of
  the specification) and returns no type.
\<close>

lemma getJsonFileType_one_key:
  assumes "distinct (map fst kvs)"
  shows "(fst ` set kvs - {''$schema''} = {k} \<longrightarrow>
            getJsonFileType (JObject kvs) availableTypes = Inr k) \<and>
         (card (fst ` set kvs - {''$schema''}) \<noteq> 1 \<longrightarrow>
            getJsonFileType (JObject kvs) availableTypes
              = Inl (Error ''Wrong json file, no main entity: ''))"
proof -
  let ?ks = "filter (\<lambda>prop. prop \<noteq> SCHEMA_KEY) (map fst kvs)"
  have len: "length ?ks = card (fst ` set kvs - {''$schema''})"
    by (rule filtered_keys_length[OF assms])
  have one: "?ks ! 0 = k" if "fst ` set kvs - {''$schema''} = {k}"
  proof -
    from that len have "length ?ks = 1" by simp
    then obtain x where x: "?ks = [x]" by (cases ?ks) auto
    then have "set ?ks = {x}" by (metis list.set(1) list.simps(15))
    with that filter_keys_set[of kvs] have "x = k" by auto
    with x show ?thesis by simp
  qed
  show ?thesis
    using len one by (auto simp: getJsonFileType_def Let_def)
qed

lemma getJsonFileType_one_key_example:
  "getJsonFileType
     (JObject [(''$schema'', JString ''s''), (''invoice'', JObject [])] :: unit json) Map.empty
     = Inr ''invoice'' \<and>
   getJsonFileType
     (JObject [(''invoice'', JObject []), (''creditmemo'', JObject [])] :: unit json) Map.empty
     = Inl (Error ''Wrong json file, no main entity: '') \<and>
   getJsonFileType (JObject [(''$schema'', JString ''s'')] :: unit json) Map.empty
     = Inl (Error ''Wrong json file, no main entity: '')"
proof -
  have d1: "distinct (map fst
      [(''$schema'', JString ''s''), (''invoice'', JObject []) :: string \<times> unit json])"
    by simp
  have d2: "distinct (map fst
      [(''invoice'', JObject []), (''creditmemo'', JObject []) :: string \<times> unit json])"
    by simp
  have d3: "distinct (map fst [(''$schema'', JString ''s'') :: string \<times> unit json])"
    by simp
  have s1: "fst ` set [(''$schema'', JString ''s''), (''invoice'', JObject [])
      :: string \<times> unit json] - {''$schema''} = {''invoice''}"
    by auto
  have s2: "card (fst ` set [(''invoice'', JObject []), (''creditmemo'', JObject [])
      :: string \<times> unit json] - {''$schema''}) \<noteq> 1"
    by simp
  have s3: "card (fst ` set [(''$schema'', JString ''s'') :: string \<times> unit json]
      - {''$schema''}) \<noteq> 1"
    by simp
  show ?thesis
    using getJsonFileType_one_key [OF d1, of "''invoice''" Map.empty] s1
      getJsonFileType_one_key [OF d2, of "''invoice''" Map.empty] s2
      getJsonFileType_one_key [OF d3, of "''invoice''" Map.empty] s3
    by blast
qed

text \<open>
  Claim C1. The claim is about every input document, and the script hands to
  \<^verbatim>\<open>getJsonFileType\<close> whatever \<^verbatim>\<open>JSON.parse\<close> returned, without checking that it is an
  object. An empty array and an empty string have no top-level key, yet for them
  \<^verbatim>\<open>getJsonFileType\<close> returns the type \<^verbatim>\<open>length\<close>, their only own property name, where the
  claim has it raise; on \<^verbatim>\<open>null\<close> it raises a \<^verbatim>\<open>TypeError\<close> and not its own error. A run on
  the input \<^verbatim>\<open>[]\<close> goes on with the type \<^verbatim>\<open>length\<close> and looks it up in the index.
\<close>

theorem getJsonFileType_not_an_object:
  "getJsonFileType (JArray []) availableTypes = Inr ''length'' \<and>
   getJsonFileType (JString []) availableTypes = Inr ''length'' \<and>
   getJsonFileType JNull availableTypes = Inl TypeError \<and>
   main (example_platform (JArray []) example_invalid) example_argv =
     \<lparr>events = [Fetch PARENT_SCHEME_URL, ConsoleLog ''Json object invalid: length''],
      raised = None\<rparr>"
proof -
  have a: "getJsonFileType (JArray []) availableTypes = Inr ''length''"
    by (simp add: getJsonFileType_def SCHEMA_KEY_def)
  have b: "getJsonFileType (JString []) availableTypes = Inr ''length''"
    by (simp add: getJsonFileType_def SCHEMA_KEY_def)
  have c: "getJsonFileType JNull availableTypes = Inl TypeError"
    by (simp add: getJsonFileType_def)
  have d: "main (example_platform (JArray []) example_invalid) example_argv =
     \<lparr>events = [Fetch PARENT_SCHEME_URL, ConsoleLog ''Json object invalid: length''],
      raised = None\<rparr>"
    by code_simp
  from a b c d show ?thesis by simp
qed

section \<open>Stripping the schema key\<close>

text \<open>
  Claim C4. Removing the \<^verbatim>\<open>$schema\<close> key is idempotent: on every JSON value, removing it
  twice gives what removing it once gives (on \<^verbatim>\<open>null\<close> both raise), and a value that has
  been stripped is left as it is by a second stripping.
\<close>

theorem delete_schema_idempotent:
  "(case delete_schema d of Inl e \<Rightarrow> Inl e | Inr d' \<Rightarrow> delete_schema d') = delete_schema d \<and>
   (delete_schema d = Inr d' \<longrightarrow> delete_schema d' = Inr d')"
  by (cases d) auto

theorem delete_schema_idempotent_witness:
  "delete_schema
     (JObject [(''$schema'', JString ''s''), (''type'', JString ''object'')] :: unit json)
     = Inr (JObject [(''type'', JString ''object'')]) \<and>
   delete_schema (JObject [(''type'', JString ''object'')] :: unit json)
     = Inr (JObject [(''type'', JString ''object'')])"
proof -
  have h: "delete_schema
      (JObject [(''$schema'', JString ''s''), (''type'', JString ''object'')] :: unit json)
     = Inr (JObject [(''type'', JString ''object'')])"
    by (simp add: SCHEMA_KEY_def)
  from delete_schema_idempotent
      [of "JObject [(''$schema'', JString ''s''), (''type'', JString ''object'')] :: unit json"
          "JObject [(''type'', JString ''object'')]"] h
  show ?thesis by simp
qed

section \<open>The index of a parent schema\<close>

text \<open>
  Claim C2. The well-formed reference patterns a serialized parent schema contains are the
  successive matches of the pattern, listed by \<open>ref_matches\<close> in the order of the text; when
  the text is \<open>N\<close> well-formed patterns separated by gaps without the opening literal, these
  are exactly those \<open>N\<close> patterns. If the keys of the \<open>N\<close> patterns are distinct,
  \<^verbatim>\<open>findAllRefs\<close> returns a map of size exactly \<open>N\<close>; if a key recurs, the size of the map
  is strictly less than \<open>N\<close>; and in both cases every key maps to the locator of its last
  occurrence in the text (its only one when the keys are distinct).
\<close>

theorem findAllRefs_index:
  "(stringify parent = concat (map occ_text xs) @ g \<and> (\<forall>x \<in> set xs. occ_ok x) \<and>
    \<not> sublist REF_OPEN g \<longrightarrow> ref_matches (stringify parent) = map occ_ref xs) \<and>
   (distinct (map fst (ref_matches (stringify parent))) \<longrightarrow>
      card (dom (findAllRefs stringify parent)) = length (ref_matches (stringify parent))) \<and>
   (\<not> distinct (map fst (ref_matches (stringify parent))) \<longrightarrow>
      card (dom (findAllRefs stringify parent)) < length (ref_matches (stringify parent))) \<and>
   (ref_matches (stringify parent) = before @ (key, url) # after \<and> key \<notin> fst ` set after \<longrightarrow>
      findAllRefs stringify parent key = Some url)"
proof -
  let ?ms = "ref_matches (stringify parent)"
  have occ: "?ms = map occ_ref xs"
    if "stringify parent = concat (map occ_text xs) @ g" "\<forall>x \<in> set xs. occ_ok x"
       "\<not> sublist REF_OPEN g"
    using ref_matches_occurrences[OF that(2,3)] that(1) by simp
  have dom: "dom (findAllRefs stringify parent) = set (map fst ?ms)"
    by (simp only: findAllRefs_map_of dom_map_of_rev)
  have a: "card (set (map fst ?ms)) = length ?ms" if "distinct (map fst ?ms)"
    using distinct_card[OF that] by simp
  have b: "card (set (map fst ?ms)) < length ?ms" if "\<not> distinct (map fst ?ms)"
    using that card_length[of "map fst ?ms"] card_distinct[of "map fst ?ms"] by force
  have c: "findAllRefs stringify parent key = Some url"
    if "?ms = before @ (key, url) # after" "key \<notin> fst ` set after"
    using map_of_rev_last[OF that] by (simp only: findAllRefs_map_of)
  from occ a b c dom show ?thesis by presburger
qed

theorem findAllRefs_index_witness:
  "ref_matches example_three_refs =
     [(''invoice'', ''https://x/one.json''), (''order'', ''http://x/two.json''),
      (''invoice'', ''https://x/three.json'')] \<and>
   card (dom (findAllRefs (\<lambda>j. example_three_refs) (JNull :: int json))) < 3 \<and>
   findAllRefs (\<lambda>j. example_three_refs) (JNull :: int json) ''invoice''
     = Some ''https://x/three.json'' \<and>
   card (dom (findAllRefs (\<lambda>j. example_parent_text) (JNull :: int json))) = 1 \<and>
   findAllRefs (\<lambda>j. example_parent_text) (JNull :: int json) ''invoice''
     = Some ''https://x/invoice.json''"
proof -
  note three = findAllRefs_index
    [where stringify = "\<lambda>j. example_three_refs" and parent = "JNull :: int json"
       and xs = example_occurrences and g = "''}}''"
       and before = "[(''invoice'', ''https://x/one.json''), (''order'', ''http://x/two.json'')]"
       and key = "''invoice''" and url = "''https://x/three.json''" and after = "[]"]
  note one = findAllRefs_index
    [where stringify = "\<lambda>j. example_parent_text" and parent = "JNull :: int json"
       and xs = "[]" and g = "[]"
       and before = "[]" and key = "''invoice''" and url = "''https://x/invoice.json''"
       and after = "[]"]
  from three example_three_text example_occurrences_ok example_last_gap
  have m: "ref_matches example_three_refs = map occ_ref example_occurrences"
    by blast
  have v: "map occ_ref example_occurrences =
     [(''invoice'', ''https://x/one.json''), (''order'', ''http://x/two.json''),
      (''invoice'', ''https://x/three.json'')]"
    by code_simp
  from three have 1: "card (dom (findAllRefs (\<lambda>j. example_three_refs) (JNull :: int json))) < 3"
    and 2: "findAllRefs (\<lambda>j. example_three_refs) (JNull :: int json) ''invoice''
              = Some ''https://x/three.json''"
    by (simp_all add: m v)
  from one have 3: "card (dom (findAllRefs (\<lambda>j. example_parent_text) (JNull :: int json))) = 1"
    and 4: "findAllRefs (\<lambda>j. example_parent_text) (JNull :: int json) ''invoice''
              = Some ''https://x/invoice.json''"
    by (simp_all add: example_matches)
  from m v 1 2 3 4 show ?thesis by simp
qed

text \<open>
  Claim C9. The scan is one pass over the serialized parent schema. Over the whole loop the
  pattern is attempted at no more than \<open>length text + 1\<close> positions, so no position is tried
  twice; the indices at which the successive matches end increase strictly and stay within
  the text; the map returned is exactly what these matches wrote. Every entry of the index
  occurs literally in the parent's text (quote, locator, \<^verbatim>\<open>#/properties/\<close>, key, quote).
  Indexing fetches nothing: a run fetches the parent schema and then at most one further
  locator, however many references were indexed.
\<close>

theorem findAllRefs_single_pass:
  "loop_attempts (stringify parent) 0 \<le> length (stringify parent) + 1 \<and>
   sorted_wrt (<) (map (\<lambda>r. snd (snd r)) (exec_results (stringify parent) 0)) \<and>
   (\<forall>r \<in> set (exec_results (stringify parent) 0). snd (snd r) \<le> length (stringify parent)) \<and>
   findAllRefs stringify parent = map_of (rev (map ref_of (exec_results (stringify parent) 0))) \<and>
   (findAllRefs stringify parent key = Some url \<longrightarrow>
      sublist (DQUOTE @ url @ PROPERTIES @ key @ DQUOTE) (stringify parent)) \<and>
   (\<exists>u. prefix (fetched (main p process_argv)) [PARENT_SCHEME_URL, u])"
proof -
  have a: "loop_attempts (stringify parent) 0 \<le> length (stringify parent) + 1"
    using loop_attempts_bound[of "stringify parent" 0] by simp
  have b: "sorted_wrt (<) (map (\<lambda>r. snd (snd r)) (exec_results (stringify parent) 0))"
    by (rule exec_results_increasing)
  have c: "\<forall>r \<in> set (exec_results (stringify parent) 0). snd (snd r) \<le> length (stringify parent)"
    using exec_results_bounds[of _ _ _ "stringify parent" 0] by auto
  have d: "findAllRefs stringify parent
             = map_of (rev (map ref_of (exec_results (stringify parent) 0)))"
    using findAllRefs_map_of[of stringify parent] by (simp add: ref_matches_def)
  have e: "findAllRefs stringify parent key = Some url \<longrightarrow>
      sublist (DQUOTE @ url @ PROPERTIES @ key @ DQUOTE) (stringify parent)"
    using findAllRefs_occur by blast
  from a b c d e main_fetches[of p process_argv] show ?thesis by blast
qed

theorem findAllRefs_single_pass_witness:
  "loop_attempts example_parent_text 0 \<le> 81 \<and>
   sublist (DQUOTE @ ''https://x/invoice.json'' @ PROPERTIES @ ''invoice'' @ DQUOTE)
     example_parent_text"
proof -
  have l: "length example_parent_text = 80"
    by (simp add: example_parent_text_def)
  have i: "findAllRefs (\<lambda>j. example_parent_text) (JNull :: int json) ''invoice''
             = Some ''https://x/invoice.json''"
    by (simp add: example_index)
  from findAllRefs_single_pass [of "\<lambda>j. example_parent_text" "JNull :: int json" "''invoice''"
      "''https://x/invoice.json''" "example_platform example_invoice example_invalid"
      example_argv] l i
  show ?thesis by simp
qed

section \<open>The runs of the pipeline\<close>

text \<open>
  Claim C3, as the code has it. When the resolved entity type has no entry in the index (in
  particular when the parent schema holds no matching reference, so that the index is
  empty), the run writes \<^verbatim>\<open>Json object invalid: \<close> followed by the type to the console and
  ends without raising any error; it fetches the parent schema and nothing else.
\<close>

theorem main_unknown_entity_type:
  assumes "readInputParameters process_argv = Inr fileName"
    and "readJsonFile p fileName = Inr jsonFile"
    and "readHttpsJsonUrl (fetch p 0) PARENT_SCHEME_URL = Inr parent"
    and "getJsonFileType jsonFile (findAllRefs (JSON_stringify p) parent) = Inr jsonFileType"
    and "findAllRefs (JSON_stringify p) parent jsonFileType = None \<or>
         ref_matches (JSON_stringify p parent) = []"
  shows "main p process_argv =
           \<lparr>events = [Fetch PARENT_SCHEME_URL,
                      ConsoleLog (''Json object invalid: '' @ jsonFileType)],
            raised = None\<rparr>"
proof -
  from assms(5) have "findAllRefs (JSON_stringify p) parent jsonFileType = None"
    using findAllRefs_no_matches by blast
  with assms(1-4) show ?thesis by (rule main_unknown_type)
qed

theorem main_unknown_entity_type_witness:
  "main (example_platform example_salesorder example_invalid) example_argv =
     \<lparr>events = [Fetch PARENT_SCHEME_URL, ConsoleLog ''Json object invalid: salesorder''],
      raised = None\<rparr>"
proof -
  let ?p = "example_platform example_salesorder example_invalid"
  have h4: "getJsonFileType example_salesorder (findAllRefs (JSON_stringify ?p) example_parent)
              = Inr ''salesorder''"
    by (rule example_salesorder_type)
  have h5: "findAllRefs (JSON_stringify ?p) example_parent ''salesorder'' = None \<or>
            ref_matches (JSON_stringify ?p example_parent) = []"
    by (simp add: example_stringify example_index)
  from main_unknown_entity_type [OF example_argv_ok example_file_ok example_parent_ok h4 h5]
  show ?thesis by simp
qed

text \<open>
  The claim as stated says that such a run fails with an error. In the example the type
  \<^verbatim>\<open>salesorder\<close> is resolved and has no entry in the index, and the run raises nothing.
\<close>

theorem main_unknown_entity_type_counterexample:
  "getJsonFileType example_salesorder
     (findAllRefs (JSON_stringify (example_platform example_salesorder example_invalid))
        example_parent) = Inr ''salesorder'' \<and>
   findAllRefs (JSON_stringify (example_platform example_salesorder example_invalid))
     example_parent ''salesorder'' = None \<and>
   raised (main (example_platform example_salesorder example_invalid) example_argv) = None"
  by code_simp

text \<open>
  Claim C5. For an input document (an object) with two or more top-level keys besides
  \<^verbatim>\<open>$schema\<close>, the run fetches the parent schema and nothing else and ends with an error;
  once the parent schema has been fetched, that error is
  \<^verbatim>\<open>Wrong json file, no main entity: \<close>, raised by type resolution. Every stage that fails
  ends the run at that stage with the error of that stage: the events of the run stop there
  and nothing is reported.
\<close>

theorem main_short_circuits:
  "(readInputParameters process_argv = Inr fileName \<and>
    readJsonFile p fileName = Inr (JObject kvs) \<and>
    distinct (map fst kvs) \<and> 2 \<le> card (fst ` set kvs - {''$schema''}) \<longrightarrow>
      events (main p process_argv) = [Fetch PARENT_SCHEME_URL] \<and>
      (\<exists>e. raised (main p process_argv) = Some e) \<and>
      (\<forall>parent. readHttpsJsonUrl (fetch p 0) PARENT_SCHEME_URL = Inr parent \<longrightarrow>
         raised (main p process_argv) = Some (Error ''Wrong json file, no main entity: ''))) \<and>
   (readInputParameters process_argv = Inl e \<longrightarrow>
      main p process_argv = \<lparr>events = [], raised = Some e\<rparr>) \<and>
   (readInputParameters process_argv = Inr fileName \<longrightarrow>
     (readJsonFile p fileName = Inl e \<longrightarrow>
        main p process_argv = \<lparr>events = [], raised = Some e\<rparr>) \<and>
     (readJsonFile p fileName = Inr jsonFile \<longrightarrow>
       (readHttpsJsonUrl (fetch p 0) PARENT_SCHEME_URL = Inl e \<longrightarrow>
          main p process_argv = \<lparr>events = [Fetch PARENT_SCHEME_URL], raised = Some e\<rparr>) \<and>
       (readHttpsJsonUrl (fetch p 0) PARENT_SCHEME_URL = Inr parent \<longrightarrow>
         (getJsonFileType jsonFile (findAllRefs (JSON_stringify p) parent) = Inl e \<longrightarrow>
            main p process_argv = \<lparr>events = [Fetch PARENT_SCHEME_URL], raised = Some e\<rparr>) \<and>
         (getJsonFileType jsonFile (findAllRefs (JSON_stringify p) parent) = Inr jsonFileType \<and>
          findAllRefs (JSON_stringify p) parent jsonFileType = Some url \<longrightarrow>
           (readHttpsJsonUrl (fetch p 1) url = Inl e \<longrightarrow>
              main p process_argv =
                \<lparr>events = [Fetch PARENT_SCHEME_URL, Fetch url], raised = Some e\<rparr>) \<and>
           (readHttpsJsonUrl (fetch p 1) url = Inr schema \<longrightarrow>
             (delete_schema schema = Inl e \<longrightarrow>
                main p process_argv =
                  \<lparr>events = [Fetch PARENT_SCHEME_URL, Fetch url], raised = Some e\<rparr>) \<and>
             (delete_schema schema = Inr schema' \<and> ajv_compile p schema' = Inl e \<longrightarrow>
                main p process_argv =
                  \<lparr>events = [Fetch PARENT_SCHEME_URL, Fetch url, Compile schema'],
                   raised = Some e\<rparr>))))))"
proof -
  have two: "readInputParameters process_argv = Inr fileName \<and>
    readJsonFile p fileName = Inr (JObject kvs) \<and>
    distinct (map fst kvs) \<and> 2 \<le> card (fst ` set kvs - {''$schema''}) \<longrightarrow>
      events (main p process_argv) = [Fetch PARENT_SCHEME_URL] \<and>
      (\<exists>e. raised (main p process_argv) = Some e) \<and>
      (\<forall>parent. readHttpsJsonUrl (fetch p 0) PARENT_SCHEME_URL = Inr parent \<longrightarrow>
         raised (main p process_argv) = Some (Error ''Wrong json file, no main entity: ''))"
    using main_two_keys[of process_argv fileName p kvs] by blast
  from two main_stage_failures[of process_argv e p fileName jsonFile parent jsonFileType url
      schema schema']
  show ?thesis by (rule conjI)
qed

theorem main_short_circuits_witness:
  "events (main (example_platform example_two_keys example_invalid) example_argv)
     = [Fetch PARENT_SCHEME_URL] \<and>
   raised (main (example_platform example_two_keys example_invalid) example_argv)
     = Some (Error ''Wrong json file, no main entity: '') \<and>
   main (example_platform example_two_keys example_invalid) [''node'', ''validator01.js'']
     = \<lparr>events = [], raised = Some (Error ''Missing input json file'')\<rparr>"
proof -
  let ?p = "example_platform example_two_keys example_invalid"
  have f: "readJsonFile ?p ''input.json''
             = Inr (JObject [(''invoice'', JObject []), (''creditmemo'', JObject [])])"
    using example_file_ok[of example_two_keys example_invalid]
    by (simp add: example_two_keys_def)
  have u: "readInputParameters [''node'', ''validator01.js''] = Inl (Error ''Missing input json file'')"
    by code_simp
  from main_short_circuits [of example_argv "''input.json''" ?p
      "[(''invoice'', JObject []), (''creditmemo'', JObject [])]"]
    example_argv_ok f example_two_keys_distinct example_two_keys_card example_parent_ok
  have 1: "events (main ?p example_argv) = [Fetch PARENT_SCHEME_URL]"
    and 2: "raised (main ?p example_argv) = Some (Error ''Wrong json file, no main entity: '')"
    by blast+
  from main_short_circuits [of "[''node'', ''validator01.js'']" _ ?p _
      "Error ''Missing input json file''"] u
  have 3: "main ?p [''node'', ''validator01.js'']
     = \<lparr>events = [], raised = Some (Error ''Missing input json file'')\<rparr>"
    by blast
  from 1 2 3 show ?thesis by simp
qed

text \<open>
  Claim C8. For every compiled validator of the validation primitive and every document,
  applying the validator raises nothing: it returns an outcome that is valid exactly when
  the validator finds no violation, and an outcome that is not valid carries a non-empty
  sequence of errors; applying raises only when the validator is absent. In a run of the
  script that reaches validation with such a validator, nothing is raised whether or not
  the document conforms: non-conformance is reported as \<^verbatim>\<open>Validation errors:\<close> with the
  violations found, and conformance as \<^verbatim>\<open>The file is valid\<close>.
\<close>

theorem validate_reports_nonconformance:
  "(\<exists>result. ValidationEngine_validate (Some violations) document = Inr result \<and>
      valid result = (violations document = []) \<and> errors result = violations document \<and>
      (\<not> valid result \<longrightarrow> errors result \<noteq> [])) \<and>
   (ValidationEngine_validate validator document = Inl e \<longrightarrow> validator = None) \<and>
   (readInputParameters process_argv = Inr fileName \<and>
    readJsonFile p fileName = Inr jsonFile \<and>
    readHttpsJsonUrl (fetch p 0) PARENT_SCHEME_URL = Inr parent \<and>
    getJsonFileType jsonFile (findAllRefs (JSON_stringify p) parent) = Inr jsonFileType \<and>
    findAllRefs (JSON_stringify p) parent jsonFileType = Some url \<and>
    readHttpsJsonUrl (fetch p 1) url = Inr schema \<and>
    delete_schema schema = Inr schema' \<and>
    ajv_compile p schema' = Inr (ValidationEngine_validate (Some violations)) \<and>
    delete_schema jsonFile = Inr doc \<longrightarrow>
      raised (main p process_argv) = None \<and>
      (violations doc \<noteq> [] \<longrightarrow>
         events (main p process_argv) =
           [Fetch PARENT_SCHEME_URL, Fetch url, Compile schema', Validate doc,
            ConsoleError ''Validation errors:'' (violations doc)]) \<and>
      (violations doc = [] \<longrightarrow>
         events (main p process_argv) =
           [Fetch PARENT_SCHEME_URL, Fetch url, Compile schema', Validate doc,
            ConsoleLog ''The file is valid'']))"
proof -
  have engine: "\<exists>result. ValidationEngine_validate (Some violations) document = Inr result \<and>
      valid result = (violations document = []) \<and> errors result = violations document \<and>
      (\<not> valid result \<longrightarrow> errors result \<noteq> [])"
    by (simp add: ValidationEngine_validate_def)
  have absent: "ValidationEngine_validate validator document = Inl e \<longrightarrow> validator = None"
    by (simp add: ValidationEngine_validate_def split: option.splits)
  have run: "raised (main p process_argv) = None \<and>
      (violations doc \<noteq> [] \<longrightarrow>
         events (main p process_argv) =
           [Fetch PARENT_SCHEME_URL, Fetch url, Compile schema', Validate doc,
            ConsoleError ''Validation errors:'' (violations doc)]) \<and>
      (violations doc = [] \<longrightarrow>
         events (main p process_argv) =
           [Fetch PARENT_SCHEME_URL, Fetch url, Compile schema', Validate doc,
            ConsoleLog ''The file is valid''])"
    if "readInputParameters process_argv = Inr fileName"
      "readJsonFile p fileName = Inr jsonFile"
      "readHttpsJsonUrl (fetch p 0) PARENT_SCHEME_URL = Inr parent"
      "getJsonFileType jsonFile (findAllRefs (JSON_stringify p) parent) = Inr jsonFileType"
      "findAllRefs (JSON_stringify p) parent jsonFileType = Some url"
      "readHttpsJsonUrl (fetch p 1) url = Inr schema"
      "delete_schema schema = Inr schema'"
      "ajv_compile p schema' = Inr (ValidationEngine_validate (Some violations))"
      "delete_schema jsonFile = Inr doc"
    using main_validation[OF that] by (simp add: ValidationEngine_validate_def)
  from engine absent run show ?thesis by blast
qed

theorem validate_reports_nonconformance_witness:
  "main (example_engine_platform example_invoice) example_argv =
     \<lparr>events = [Fetch PARENT_SCHEME_URL, Fetch ''https://x/invoice.json'',
                Compile (JObject [(''type'', JString ''object'')]),
                Validate (JObject [(''invoice'', JObject [(''id'', JNumber 1)])]),
                ConsoleError ''Validation errors:'' [''/invoice/id must be string'']],
      raised = None\<rparr> \<and>
   ValidationEngine_validate (Some example_violations)
       (JObject [(''invoice'', JObject [(''id'', JNumber 1)])])
     = Inr \<lparr>valid = False, errors = [''/invoice/id must be string'']\<rparr>"
proof -
  let ?p = "example_engine_platform example_invoice"
  let ?doc = "JObject [(''invoice'', JObject [(''id'', JNumber 1)])] :: int json"
  have h1: "readInputParameters example_argv = Inr ''input.json''"
    by (rule example_argv_ok)
  have h2: "readJsonFile ?p ''input.json'' = Inr example_invoice"
    by (simp add: readJsonFile_def example_engine_platform_def example_platform_def
        RESOURCES_PATH_def)
  have h3: "readHttpsJsonUrl (fetch ?p 0) PARENT_SCHEME_URL = Inr example_parent"
    by (simp add: readHttpsJsonUrl_def example_engine_platform_def example_platform_def)
  have s: "JSON_stringify ?p = (\<lambda>j. example_parent_text)"
    by (simp add: example_engine_platform_def example_platform_def)
  have h4: "getJsonFileType example_invoice (findAllRefs (JSON_stringify ?p) example_parent)
              = Inr ''invoice''"
    by (rule example_invoice_type)
  have h5: "findAllRefs (JSON_stringify ?p) example_parent ''invoice''
              = Some ''https://x/invoice.json''"
    by (simp add: s example_index)
  have h6: "readHttpsJsonUrl (fetch ?p 1) ''https://x/invoice.json'' = Inr example_subschema"
    by (simp add: readHttpsJsonUrl_def example_engine_platform_def example_platform_def
        PARENT_SCHEME_URL_def)
  have h8: "ajv_compile ?p (JObject [(''type'', JString ''object'')])
              = Inr (ValidationEngine_validate (Some example_violations))"
    by (simp add: example_engine_platform_def)
  have v: "example_violations ?doc = [''/invoice/id must be string'']"
    by (simp add: example_violations_def)
  note inst = validate_reports_nonconformance
    [where violations = example_violations and document = ?doc and validator = None
       and e = "PlatformError ''no validator''" and process_argv = example_argv
       and fileName = "''input.json''" and p = ?p and jsonFile = example_invoice
       and parent = example_parent and jsonFileType = "''invoice''"
       and url = "''https://x/invoice.json''" and schema = example_subschema
       and schema' = "JObject [(''type'', JString ''object'')]" and doc = ?doc]
  from inst h1 h2 h3 h4 h5 h6 example_subschema_stripped h8 example_invoice_stripped v
  have r: "raised (main ?p example_argv) = None"
    and ev: "events (main ?p example_argv) =
           [Fetch PARENT_SCHEME_URL, Fetch ''https://x/invoice.json'',
            Compile (JObject [(''type'', JString ''object'')]), Validate ?doc,
            ConsoleError ''Validation errors:'' [''/invoice/id must be string'']]"
    by simp_all
  have "main ?p example_argv = \<lparr>events = events (main ?p example_argv),
                                 raised = raised (main ?p example_argv)\<rparr>"
    by simp
  with r ev have m: "main ?p example_argv =
     \<lparr>events = [Fetch PARENT_SCHEME_URL, Fetch ''https://x/invoice.json'',
                Compile (JObject [(''type'', JString ''object'')]), Validate ?doc,
                ConsoleError ''Validation errors:'' [''/invoice/id must be string'']],
      raised = None\<rparr>"
    by simp
  have e: "ValidationEngine_validate (Some example_violations) ?doc
     = Inr \<lparr>valid = False, errors = [''/invoice/id must be string'']\<rparr>"
    by (simp add: ValidationEngine_validate_def v)
  from m e show ?thesis by simp
qed

text \<open>
  Claim C10. The document handed to the compiled validator is the loaded input document
  without its \<^verbatim>\<open>$schema\<close> key: the other top-level keys keep their order and their values.
\<close>

theorem main_validates_stripped_document:
  assumes "readInputParameters process_argv = Inr fileName"
    and "readJsonFile p fileName = Inr (JObject kvs)"
    and "Validate doc \<in> set (events (main p process_argv))"
  shows "\<exists>kvs'. doc = JObject kvs' \<and>
           kvs' = filter (\<lambda>kv. fst kv \<noteq> ''$schema'') kvs \<and>
           map_of kvs' ''$schema'' = None \<and>
           (\<forall>k. k \<noteq> ''$schema'' \<longrightarrow> map_of kvs' k = map_of kvs k)"
proof -
  from main_validated_document[OF assms]
  have "doc = JObject (filter (\<lambda>kv. fst kv \<noteq> ''$schema'') kvs)"
    by (simp add: SCHEMA_KEY_def)
  then show ?thesis by (simp add: map_of_filter_key)
qed

theorem main_validates_stripped_document_witness:
  "Validate (JObject [(''invoice'', JObject [(''id'', JNumber 1)])])
     \<in> set (events (main (example_platform example_invoice example_invalid) example_argv)) \<and>
   (\<exists>kvs'. JObject [(''invoice'', JObject [(''id'', JNumber (1::int))])] = JObject kvs' \<and>
      kvs' = filter (\<lambda>kv. fst kv \<noteq> ''$schema'')
               [(''$schema'', JString ''https://x/parent.json''),
                (''invoice'', JObject [(''id'', JNumber 1)])] \<and>
      map_of kvs' ''$schema'' = None \<and>
      map_of kvs' ''invoice'' = Some (JObject [(''id'', JNumber 1)]))"
proof -
  let ?p = "example_platform example_invoice example_invalid"
  have f: "readJsonFile ?p ''input.json''
             = Inr (JObject [(''$schema'', JString ''https://x/parent.json''),
                             (''invoice'', JObject [(''id'', JNumber 1)])])"
    using example_file_ok[of example_invoice example_invalid]
    by (simp add: example_invoice_def)
  have v: "Validate (JObject [(''invoice'', JObject [(''id'', JNumber 1)])])
             \<in> set (events (main ?p example_argv))"
    by (simp add: example_run_invoice)
  from main_validates_stripped_document [OF example_argv_ok f v] v
  show ?thesis by auto
qed

section \<open>Fetching a schema\<close>

text \<open>
  Claim C6, as the code has it. \<^verbatim>\<open>readHttpsJsonUrl\<close> makes one call of \<^verbatim>\<open>fetch\<close>, with an
  abort timeout of 5000 ms. When that call is rejected (as it is on a timeout, with the
  abort signal's own error), the rejection is passed on unchanged, so a timeout is told apart
  from the generic error. When the response is not a success, the error is the fixed
  \<^verbatim>\<open>Network response was not ok\<close>.
\<close>

theorem readHttpsJsonUrl_failures:
  "(fetch_call url 5000 = Rejected e \<longrightarrow> readHttpsJsonUrl fetch_call url = Inl e) \<and>
   (fetch_call url 5000 = Response False body \<longrightarrow>
      readHttpsJsonUrl fetch_call url = Inl (Error ''Network response was not ok'')) \<and>
   (fetch_call url 5000 = Response True body \<longrightarrow> readHttpsJsonUrl fetch_call url = body) \<and>
   readHttpsJsonUrl fetch_call url = readHttpsJsonUrl (\<lambda>u ms. fetch_call u 5000) url"
  by (simp add: readHttpsJsonUrl_def)

theorem readHttpsJsonUrl_failures_witness:
  "readHttpsJsonUrl (\<lambda>u ms. if ms \<le> 5000 then Rejected (PlatformError ''TimeoutError'')
                             else Response True (Inr (JNull :: int json)))
     ''https://x/invoice.json'' = Inl (PlatformError ''TimeoutError'') \<and>
   readHttpsJsonUrl (\<lambda>u ms. Response False (Inr (JNull :: int json)))
     ''https://x/invoice.json'' = Inl (Error ''Network response was not ok'') \<and>
   readHttpsJsonUrl (\<lambda>u ms. Response True (Inr (JBool True :: int json)))
     ''https://x/invoice.json'' = Inr (JBool True)"
  using readHttpsJsonUrl_failures
      [of "\<lambda>u ms. if ms \<le> 5000 then Rejected (PlatformError ''TimeoutError'')
                             else Response True (Inr (JNull :: int json))"
          "''https://x/invoice.json''" "PlatformError ''TimeoutError''" "Inr JNull"]
    readHttpsJsonUrl_failures
      [of "\<lambda>u ms. Response False (Inr (JNull :: int json))"
          "''https://x/invoice.json''" "PlatformError ''TimeoutError''" "Inr JNull"]
    readHttpsJsonUrl_failures
      [of "\<lambda>u ms. Response True (Inr (JBool True :: int json))"
          "''https://x/invoice.json''" "PlatformError ''TimeoutError''" "Inr (JBool True)"]
  by simp

text \<open>
  The claim as stated says that the error carries the locator and the cause. Two different
  locators that answer without success give the very same error.
\<close>

theorem readHttpsJsonUrl_error_counterexample:
  "readHttpsJsonUrl (\<lambda>u ms. Response False (Inr (JNull :: int json))) ''https://x/invoice.json''
     = Inl (Error ''Network response was not ok'') \<and>
   readHttpsJsonUrl (\<lambda>u ms. Response False (Inr (JNull :: int json))) ''https://y/order.json''
     = Inl (Error ''Network response was not ok'')"
  by (simp add: readHttpsJsonUrl_def)

end
